theory Spec2Isabelle
  imports Main "HOL-Library.FSet"
begin

section \<open>Objects, classes and exceptions\<close>

text \<open>
  The module \<^verbatim>\<open>rtcbot/base.py\<close> moves data between Python objects that are compared
  by identity. An object is named by a reference (a natural number) and the part of the
  Python heap the module touches is a store from references to objects.

  What the module asks of an object is
  \<^item> \<^verbatim>\<open>callable(getattr(o, "put_nowait", None))\<close>: the field \<open>has_put_nowait\<close>;
  \<^item> \<^verbatim>\<open>inspect.iscoroutinefunction(o)\<close>: the field \<open>is_coroutinefunction\<close>;
  and what it does to an object is
  \<^item> \<^verbatim>\<open>o.put_nowait(x)\<close>: \<open>x\<close> joins the FIFO buffer \<open>items\<close> (an unbounded
    \<^verbatim>\<open>asyncio.Queue\<close>, the default of both constructors);
  \<^item> \<^verbatim>\<open>o(x)\<close>: the inline call is recorded in \<open>calls\<close>;
  \<^item> \<^verbatim>\<open>asyncio.ensure_future(o(x))\<close>: the scheduled invocation is recorded in
    \<open>futures\<close>;
  \<^item> \<^verbatim>\<open>await o.get()\<close>: the head of \<open>items\<close> is taken, and the caller stays
    suspended while the buffer is empty.
  The bodies of callbacks and the subscriptions themselves are outside the module: they
  are taken to follow this contract and to raise nothing of their own. The two
  capabilities of an object do not change while it lives.
\<close>

type_synonym ref = nat

record 'a pyobj =
  has_put_nowait :: bool
  is_coroutinefunction :: bool
  items :: "'a list"
  calls :: "'a list"
  futures :: "'a list"

text \<open>A class (or any factory) is known by the capabilities of its fresh instances.\<close>

record pyclass =
  inst_has_put_nowait :: bool
  inst_is_coroutinefunction :: bool

definition asyncio_Queue :: pyclass where
  "asyncio_Queue = \<lparr>inst_has_put_nowait = True, inst_is_coroutinefunction = False\<rparr>"

definition new_object :: "pyclass \<Rightarrow> 'a pyobj" where
  "new_object cls =
     \<lparr>has_put_nowait = inst_has_put_nowait cls,
      is_coroutinefunction = inst_is_coroutinefunction cls,
      items = [], calls = [], futures = []\<rparr>"

text \<open>The exceptions that occur. \<open>CancelledError\<close> and \<open>TimeoutError\<close> are the classes
  that \<^verbatim>\<open>asyncio\<close> raises, \<open>FuturesCancelledError\<close> and \<open>FuturesTimeoutError\<close> those
  that \<^verbatim>\<open>concurrent.futures\<close> raises.\<close>

datatype exc =
    SubscriptionClosed
  | KeyError
  | AttributeError
  | CancelledError
  | TimeoutError
  | FuturesCancelledError
  | FuturesTimeoutError
  | OtherError

text \<open>What awaiting (or calling) an operation gives: a value, an exception, or a caller
  that is still suspended.\<close>

datatype 'a awaited = Returned 'a | Raised exc | Suspended

definition obj_put_nowait :: "'a \<Rightarrow> 'a pyobj \<Rightarrow> 'a pyobj" where
  "obj_put_nowait x ob = ob\<lparr>items := items ob @ [x]\<rparr>"

definition obj_call :: "'a \<Rightarrow> 'a pyobj \<Rightarrow> 'a pyobj" where
  "obj_call x ob = ob\<lparr>calls := calls ob @ [x]\<rparr>"

definition obj_ensure_future :: "'a \<Rightarrow> 'a pyobj \<Rightarrow> 'a pyobj" where
  "obj_ensure_future x ob = ob\<lparr>futures := futures ob @ [x]\<rparr>"

text \<open>
  Both cores keep \<^verbatim>\<open>_shouldClose\<close> and \<^verbatim>\<open>_ready\<close>; the store is carried with them.
  A leading underscore of a Python name is dropped.
\<close>

record 'a component =
  objs :: "ref \<Rightarrow> 'a pyobj"
  next_ref :: ref
  shouldClose :: bool
  ready :: bool

text \<open>Calling a class: a new object at a reference never handed out before.\<close>

definition construct ::
  "pyclass \<Rightarrow> ('a, 'z) component_scheme \<Rightarrow> ref \<times> ('a, 'z) component_scheme" where
  "construct cls s =
     (next_ref s,
      s\<lparr>objs := (objs s)(next_ref s := new_object cls), next_ref := Suc (next_ref s)\<rparr>)"

text \<open>
  \<^verbatim>\<open>for s in some_set: \<dots>s\<dots>\<close> where the body acts on the object \<open>s\<close>: the loop
  runs once over each member. Python leaves the order of a set open; the members are
  taken in increasing order of reference here.
\<close>

definition for_each ::
  "ref fset \<Rightarrow> ('a pyobj \<Rightarrow> 'a pyobj) \<Rightarrow> (ref \<Rightarrow> 'a pyobj) \<Rightarrow> (ref \<Rightarrow> 'a pyobj)" where
  "for_each S f h = fold (\<lambda>r h'. h'(r := f (h' r))) (sorted_list_of_fset S) h"

text \<open>\<^verbatim>\<open>set.remove\<close> raises \<^verbatim>\<open>KeyError\<close> on a missing member.\<close>

definition set_remove :: "ref \<Rightarrow> ref fset \<Rightarrow> exc + ref fset" where
  "set_remove r S = (if r |\<in>| S then Inr (S |-| {|r|}) else Inl KeyError)"

section \<open>BaseSubscriptionProducer\<close>

record 'a producer = "'a component" +
  subscriptions :: "ref fset"
  callbacks :: "ref fset"
  cocallbacks :: "ref fset"
  defaultSubscriptionClass :: pyclass
  defaultSubscription :: "ref option"

text \<open>\<^verbatim>\<open>subscribe(self, subscription=None)\<close>, lines 160 to 171.\<close>

definition subscribe ::
  "ref option \<Rightarrow> ('a, 'z) producer_scheme \<Rightarrow> ref \<times> ('a, 'z) producer_scheme" where
  "subscribe subscription p =
     (let (s, p1) = (case subscription of
                       None \<Rightarrow> construct (defaultSubscriptionClass p) p
                     | Some r \<Rightarrow> (r, p))
      in if has_put_nowait (objs p1 s)
         then (s, p1\<lparr>subscriptions := finsert s (subscriptions p1)\<rparr>)
         else if is_coroutinefunction (objs p1 s)
         then (s, p1\<lparr>cocallbacks := finsert s (cocallbacks p1)\<rparr>)
         else (s, p1\<lparr>callbacks := finsert s (callbacks p1)\<rparr>))"

text \<open>\<^verbatim>\<open>_put_nowait(self, element)\<close>, lines 182 to 190: three loops, one per registry.\<close>

definition producer_put_nowait ::
  "'a \<Rightarrow> ('a, 'z) producer_scheme \<Rightarrow> ('a, 'z) producer_scheme" where
  "producer_put_nowait element p =
     (let h1 = for_each (subscriptions p) (obj_put_nowait element) (objs p);
          h2 = for_each (callbacks p) (obj_call element) h1;
          h3 = for_each (cocallbacks p) (obj_ensure_future element) h2
      in p\<lparr>objs := h3\<rparr>)"

text \<open>A subclass broadcasting one item after the other.\<close>

definition broadcast_all ::
  "'a list \<Rightarrow> ('a, 'z) producer_scheme \<Rightarrow> ('a, 'z) producer_scheme" where
  "broadcast_all xs p = fold producer_put_nowait xs p"

text \<open>\<^verbatim>\<open>unsubscribe(self, subscription=None)\<close>, lines 207 to 226. The branch for a given
  object comes first; the branch without argument calls it on the default subscription.\<close>

definition unsubscribe_object ::
  "ref \<Rightarrow> ('a, 'z) producer_scheme \<Rightarrow> exc + ('a, 'z) producer_scheme" where
  "unsubscribe_object s p =
     (if has_put_nowait (objs p s)
      then (case set_remove s (subscriptions p) of
              Inl e \<Rightarrow> Inl e | Inr S \<Rightarrow> Inr (p\<lparr>subscriptions := S\<rparr>))
      else if is_coroutinefunction (objs p s)
      then (case set_remove s (cocallbacks p) of
              Inl e \<Rightarrow> Inl e | Inr S \<Rightarrow> Inr (p\<lparr>cocallbacks := S\<rparr>))
      else (case set_remove s (callbacks p) of
              Inl e \<Rightarrow> Inl e | Inr S \<Rightarrow> Inr (p\<lparr>callbacks := S\<rparr>)))"

definition unsubscribe ::
  "ref option \<Rightarrow> ('a, 'z) producer_scheme \<Rightarrow> exc + ('a, 'z) producer_scheme" where
  "unsubscribe subscription p =
     (case subscription of
        None \<Rightarrow>
          (case defaultSubscription p of
             Some d \<Rightarrow>
               (case unsubscribe_object d p of
                  Inl e \<Rightarrow> Inl e
                | Inr p1 \<Rightarrow> Inr (p1\<lparr>defaultSubscription := None\<rparr>))
           | None \<Rightarrow> Inr p)
      | Some s \<Rightarrow> unsubscribe_object s p)"

text \<open>\<^verbatim>\<open>unsubscribeAll(self)\<close>, lines 232 to 235.\<close>

definition unsubscribeAll :: "('a, 'z) producer_scheme \<Rightarrow> ('a, 'z) producer_scheme" where
  "unsubscribeAll p =
     p\<lparr>subscriptions := {||}, callbacks := {||}, cocallbacks := {||},
       defaultSubscription := None\<rparr>"

text \<open>\<^verbatim>\<open>__defaultSubscribe(self)\<close>, lines 237 to 242.\<close>

definition defaultSubscribe :: "('a, 'z) producer_scheme \<Rightarrow> ('a, 'z) producer_scheme" where
  "defaultSubscribe p =
     (case defaultSubscription p of
        None \<Rightarrow> (let (s, p1) = subscribe None p in p1\<lparr>defaultSubscription := Some s\<rparr>)
      | Some d \<Rightarrow> p)"

text \<open>\<^verbatim>\<open>get(self)\<close>, lines 266 to 268. \<^verbatim>\<open>None.get\<close> is an \<^verbatim>\<open>AttributeError\<close>.\<close>

definition producer_get ::
  "('a, 'z) producer_scheme \<Rightarrow> 'a awaited \<times> ('a, 'z) producer_scheme" where
  "producer_get p =
     (let p1 = defaultSubscribe p
      in case defaultSubscription p1 of
           None \<Rightarrow> (Raised AttributeError, p1)
         | Some d \<Rightarrow>
             (case items (objs p1 d) of
                [] \<Rightarrow> (Suspended, p1)
              | x # xs \<Rightarrow>
                  (Returned x, p1\<lparr>objs := (objs p1)(d := (objs p1 d)\<lparr>items := xs\<rparr>)\<rparr>)))"

text \<open>\<^verbatim>\<open>close(self)\<close>, lines 274 to 277.\<close>

definition producer_close :: "('a, 'z) producer_scheme \<Rightarrow> ('a, 'z) producer_scheme" where
  "producer_close p =
     (let p1 = p\<lparr>shouldClose := True\<rparr>;
          p2 = unsubscribeAll p1
      in p2\<lparr>ready := False\<rparr>)"

text \<open>\<^verbatim>\<open>__init__\<close>, lines 88 to 110, in a store \<open>h\<close> whose references below \<open>n\<close> are
  taken.\<close>

definition producer_init ::
  "(ref \<Rightarrow> 'a pyobj) \<Rightarrow> ref \<Rightarrow> pyclass \<Rightarrow> bool \<Rightarrow> bool \<Rightarrow> 'a producer" where
  "producer_init h n cls defaultAutosubscribe rdy =
     (let p = \<lparr>objs = h, next_ref = n, shouldClose = False, ready = rdy,
               subscriptions = {||}, callbacks = {||}, cocallbacks = {||},
               defaultSubscriptionClass = cls, defaultSubscription = None\<rparr>
      in if defaultAutosubscribe then defaultSubscribe p else p)"

text \<open>The public operations of a producer, as calls. A call that raises leaves the state
  it had when it raised; \<^verbatim>\<open>unsubscribe\<close> raises before it changes anything. The read-only
  property \<^verbatim>\<open>ready\<close> is the field itself.\<close>

datatype 'a producer_call =
    Subscribe "ref option"
  | Unsubscribe "ref option"
  | UnsubscribeAll
  | Get
  | Close
  | Broadcast 'a

fun producer_exec ::
  "'a producer_call \<Rightarrow> ('a, 'z) producer_scheme \<Rightarrow> ('a, 'z) producer_scheme" where
  "producer_exec (Subscribe a) p = snd (subscribe a p)"
| "producer_exec (Unsubscribe a) p = (case unsubscribe a p of Inl e \<Rightarrow> p | Inr p' \<Rightarrow> p')"
| "producer_exec UnsubscribeAll p = unsubscribeAll p"
| "producer_exec Get p = snd (producer_get p)"
| "producer_exec Close p = producer_close p"
| "producer_exec (Broadcast x) p = producer_put_nowait x p"

definition producer_run ::
  "'a producer_call list \<Rightarrow> ('a, 'z) producer_scheme \<Rightarrow> ('a, 'z) producer_scheme" where
  "producer_run cs p = fold producer_exec cs p"

subsection \<open>ThreadedSubscriptionProducer\<close>

text \<open>
  The worker thread does not broadcast itself: \<^verbatim>\<open>_put_nowait\<close> (line 460) hands the call
  to the event loop with \<^verbatim>\<open>call_soon_threadsafe\<close>, and the loop runs it later.
  \<open>scheduled\<close> holds the calls handed over and not yet run. \<^verbatim>\<open>close\<close> (lines 491, 492)
  is the base \<^verbatim>\<open>close\<close> followed by the join of the thread.
\<close>

record 'a threaded_producer = "'a producer" +
  scheduled :: "'a list"

definition threaded_put_nowait :: "'a \<Rightarrow> 'a threaded_producer \<Rightarrow> 'a threaded_producer" where
  "threaded_put_nowait data tp = tp\<lparr>scheduled := scheduled tp @ [data]\<rparr>"

definition loop_callback :: "'a threaded_producer \<Rightarrow> 'a threaded_producer" where
  "loop_callback tp =
     (case scheduled tp of
        [] \<Rightarrow> tp
      | x # xs \<Rightarrow> (producer_put_nowait x tp)\<lparr>scheduled := xs\<rparr>)"

definition threaded_producer_close :: "'a threaded_producer \<Rightarrow> 'a threaded_producer" where
  "threaded_producer_close tp = producer_close tp"

datatype 'a threaded_call = Threaded_call "'a producer_call" | Loop_callback

fun threaded_exec :: "'a threaded_call \<Rightarrow> 'a threaded_producer \<Rightarrow> 'a threaded_producer" where
  "threaded_exec (Threaded_call Close) tp = threaded_producer_close tp"
| "threaded_exec (Threaded_call (Broadcast x)) tp = threaded_put_nowait x tp"
| "threaded_exec (Threaded_call c) tp = producer_exec c tp"
| "threaded_exec Loop_callback tp = loop_callback tp"

subsection \<open>ProcessSubscriptionProducer\<close>

text \<open>
  Here \<^verbatim>\<open>_shouldClose\<close> and \<^verbatim>\<open>_ready\<close> are properties over two
  \<^verbatim>\<open>multiprocessing.Event\<close>s (lines 531 to 555): the getter is \<^verbatim>\<open>is_set()\<close>, the
  setter calls \<^verbatim>\<open>set()\<close> for a true value and \<^verbatim>\<open>clear()\<close> for a false one. The fields
  \<open>shouldClose\<close> and \<open>ready\<close> stand for the two events, so the getters are the fields,
  and every assignment the class makes goes through the setters below.
  \<open>producerQueue\<close> is the cross-process queue.
\<close>

record 'a process_producer = "'a producer" +
  producerQueue :: "'a list"

definition shouldClose_setter :: "bool \<Rightarrow> 'a process_producer \<Rightarrow> 'a process_producer" where
  "shouldClose_setter value pp =
     (if value then pp\<lparr>shouldClose := True\<rparr> else pp\<lparr>shouldClose := False\<rparr>)"

definition ready_setter :: "bool \<Rightarrow> 'a process_producer \<Rightarrow> 'a process_producer" where
  "ready_setter value pp =
     (if value then pp\<lparr>ready := True\<rparr> else pp\<lparr>ready := False\<rparr>)"

text \<open>\<^verbatim>\<open>_put_nowait\<close>, line 572, called in the worker process.\<close>

definition process_put_nowait :: "'a \<Rightarrow> 'a process_producer \<Rightarrow> 'a process_producer" where
  "process_put_nowait data pp = pp\<lparr>producerQueue := producerQueue pp @ [data]\<rparr>"

text \<open>One turn of \<^verbatim>\<open>__queueReader\<close>, lines 558 to 564, with the broadcast it schedules
  run at once; on an empty queue the read times out and nothing happens.\<close>

definition queueReader :: "'a process_producer \<Rightarrow> 'a process_producer" where
  "queueReader pp =
     (if \<not> shouldClose pp
      then (case producerQueue pp of
              [] \<Rightarrow> pp
            | x # xs \<Rightarrow> (producer_put_nowait x pp)\<lparr>producerQueue := xs\<rparr>)
      else pp)"

text \<open>The end of \<^verbatim>\<open>__producerSetup\<close>, lines 585 and 586.\<close>

definition producerSetup_exit :: "'a process_producer \<Rightarrow> 'a process_producer" where
  "producerSetup_exit pp = shouldClose_setter True (ready_setter False pp)"

text \<open>\<^verbatim>\<open>close\<close>, line 612: the base \<^verbatim>\<open>close\<close> with its two assignments going through
  the setters; the joins that follow change none of these fields.\<close>

definition process_close :: "'a process_producer \<Rightarrow> 'a process_producer" where
  "process_close pp =
     (let pp1 = shouldClose_setter True pp;
          pp2 = unsubscribeAll pp1
      in ready_setter False pp2)"

datatype 'a process_call = Process_call "'a producer_call" | QueueReader | ProducerSetup_exit

fun process_exec :: "'a process_call \<Rightarrow> 'a process_producer \<Rightarrow> 'a process_producer" where
  "process_exec (Process_call Close) pp = process_close pp"
| "process_exec (Process_call (Broadcast x)) pp = process_put_nowait x pp"
| "process_exec (Process_call c) pp = producer_exec c pp"
| "process_exec QueueReader pp = queueReader pp"
| "process_exec ProducerSetup_exit pp = producerSetup_exit pp"

section \<open>BaseSubscriptionConsumer\<close>

text \<open>
  \<^verbatim>\<open>_getTask\<close> is an \<^verbatim>\<open>asyncio.Task\<close> running \<^verbatim>\<open>subscription.get()\<close> for the
  subscription that was active when the task was made (\<open>awaits\<close>). A task is pending,
  pending with a cancellation requested, or done: with a result, cancelled, or with an
  exception. \<^verbatim>\<open>cancel()\<close> on a task that is not done requests the cancellation; the
  event loop delivers it at the task's next step. \<open>task_done\<close> is \<^verbatim>\<open>done()\<close>.
\<close>

datatype 'a tstate = Pending | CancelRequested | Done 'a | Cancelled | Failed exc

record 'a task =
  awaits :: ref
  tstate :: "'a tstate"

definition task_done :: "'a task \<Rightarrow> bool" where
  "task_done t = (case tstate t of Pending \<Rightarrow> False | CancelRequested \<Rightarrow> False | _ \<Rightarrow> True)"

definition cancel :: "'a task \<Rightarrow> 'a task" where
  "cancel t = (if task_done t then t else t\<lparr>tstate := CancelRequested\<rparr>)"

definition create_task :: "ref \<Rightarrow> 'a task" where
  "create_task s = \<lparr>awaits = s, tstate = Pending\<rparr>"

text \<open>The field \<open>subscription\<close> is the attribute \<^verbatim>\<open>_subscription\<close>; the read-only
  property \<^verbatim>\<open>subscription\<close> is \<open>subscription_property\<close> below.\<close>

record 'a consumer = "'a component" +
  directPutSubscriptionType :: pyclass
  directPutSubscription :: ref
  subscription :: ref
  getTask :: "'a task option"

text \<open>\<^verbatim>\<open>__init__\<close>, lines 301 to 318.\<close>

definition consumer_init :: "(ref \<Rightarrow> 'a pyobj) \<Rightarrow> ref \<Rightarrow> pyclass \<Rightarrow> bool \<Rightarrow> 'a consumer" where
  "consumer_init h n cls rdy =
     \<lparr>objs = h(n := new_object cls), next_ref = Suc n, shouldClose = False, ready = rdy,
      directPutSubscriptionType = cls, directPutSubscription = n, subscription = n,
      getTask = None\<rparr>"

text \<open>\<^verbatim>\<open>putSubscription(self, subscription)\<close>, lines 388 to 396.\<close>

definition putSubscription :: "ref \<Rightarrow> 'a consumer \<Rightarrow> 'a consumer" where
  "putSubscription s c =
     (if s = subscription c then c
      else (let c1 = c\<lparr>subscription := s\<rparr>
            in case getTask c1 of
                 None \<Rightarrow> c1
               | Some t \<Rightarrow> if \<not> task_done t then c1\<lparr>getTask := Some (cancel t)\<rparr> else c1))"

text \<open>\<^verbatim>\<open>stop(self)\<close>, lines 403 to 406.\<close>

definition stop :: "'a consumer \<Rightarrow> 'a consumer" where
  "stop c =
     (let (d, c1) = construct (directPutSubscriptionType c) c;
          c2 = c1\<lparr>directPutSubscription := d\<rparr>
      in putSubscription (directPutSubscription c2) c2)"

text \<open>\<^verbatim>\<open>put_nowait(self, data)\<close>, lines 370 to 377.\<close>

definition consumer_put_nowait :: "'a \<Rightarrow> 'a consumer \<Rightarrow> 'a consumer" where
  "consumer_put_nowait data c =
     (let c1 = (if subscription c \<noteq> directPutSubscription c then stop c else c);
          d = directPutSubscription c1
      in c1\<lparr>objs := (objs c1)(d := obj_put_nowait data (objs c1 d))\<rparr>)"

text \<open>\<^verbatim>\<open>close(self)\<close>, lines 413 to 416.\<close>

definition consumer_close :: "'a consumer \<Rightarrow> 'a consumer" where
  "consumer_close c =
     (let c1 = c\<lparr>ready := False\<rparr>;
          c2 = c1\<lparr>shouldClose := True\<rparr>
      in case getTask c2 of
           None \<Rightarrow> c2
         | Some t \<Rightarrow> if \<not> task_done t then c2\<lparr>getTask := Some (cancel t)\<rparr> else c2)"

text \<open>The property \<^verbatim>\<open>subscription\<close>, lines 424 to 426.\<close>

definition subscription_property :: "'a consumer \<Rightarrow> ref option" where
  "subscription_property c =
     (if subscription c = directPutSubscription c then None else Some (subscription c))"

text \<open>
  \<^verbatim>\<open>_get\<close>, lines 345 to 364, is a coroutine: it runs from the test of the loop to the
  \<^verbatim>\<open>await\<close>, where it is suspended until its task is done, or to the \<^verbatim>\<open>raise\<close> after
  the loop (\<open>get_loop\<close>); when the task is done it goes on after the \<^verbatim>\<open>await\<close>
  (\<open>get_resume\<close>): a result is returned, and \<^verbatim>\<open>CancelledError\<close>,
  \<^verbatim>\<open>SubscriptionClosed\<close> and, by the bare \<^verbatim>\<open>except\<close>, every other exception lead back
  to the test of the loop. Awaiting \<^verbatim>\<open>None\<close> is a \<^verbatim>\<open>TypeError\<close>, which the bare
  \<^verbatim>\<open>except\<close> takes too.
\<close>

definition get_loop :: "'a consumer \<Rightarrow> 'a awaited \<times> 'a consumer" where
  "get_loop c =
     (if \<not> shouldClose c
      then (Suspended, c\<lparr>getTask := Some (create_task (subscription c))\<rparr>)
      else (Raised SubscriptionClosed, c))"

definition get_resume :: "'a consumer \<Rightarrow> 'a awaited \<times> 'a consumer" where
  "get_resume c =
     (case getTask c of
        None \<Rightarrow> get_loop c
      | Some t \<Rightarrow>
          (case tstate t of
             Pending \<Rightarrow> (Suspended, c)
           | CancelRequested \<Rightarrow> (Suspended, c)
           | Done v \<Rightarrow> (Returned v, c)
           | Cancelled \<Rightarrow> get_loop c
           | Failed e \<Rightarrow> get_loop c))"

text \<open>
  One step of the task on the event loop. A requested cancellation is delivered and
  \<^verbatim>\<open>get()\<close> lets it through; otherwise \<^verbatim>\<open>get()\<close> raises the exception the subscription
  chooses to raise (\<open>Some e\<close>), or takes the head of the buffer when there is one.
\<close>

definition task_step :: "exc option \<Rightarrow> 'a consumer \<Rightarrow> 'a consumer" where
  "task_step raises c =
     (case getTask c of
        None \<Rightarrow> c
      | Some t \<Rightarrow>
          (case tstate t of
             CancelRequested \<Rightarrow> c\<lparr>getTask := Some (t\<lparr>tstate := Cancelled\<rparr>)\<rparr>
           | Pending \<Rightarrow>
               (case raises of
                  Some e \<Rightarrow> c\<lparr>getTask := Some (t\<lparr>tstate := Failed e\<rparr>)\<rparr>
                | None \<Rightarrow>
                    (case items (objs c (awaits t)) of
                       [] \<Rightarrow> c
                     | x # xs \<Rightarrow>
                         c\<lparr>objs := (objs c)(awaits t := (objs c (awaits t))\<lparr>items := xs\<rparr>),
                           getTask := Some (t\<lparr>tstate := Done x\<rparr>)\<rparr>))
           | _ \<Rightarrow> c))"

text \<open>The public operations of a consumer, as calls.\<close>

datatype 'a consumer_call =
    Put_nowait 'a
  | PutSubscription ref
  | Stop
  | Close_consumer

fun consumer_exec :: "'a consumer_call \<Rightarrow> 'a consumer \<Rightarrow> 'a consumer" where
  "consumer_exec (Put_nowait x) c = consumer_put_nowait x c"
| "consumer_exec (PutSubscription s) c = putSubscription s c"
| "consumer_exec Stop c = stop c"
| "consumer_exec Close_consumer c = consumer_close c"

text \<open>
  What happens on the event loop around one consumer, one event at a time: another
  coroutine calls a public operation; the subclass calls \<^verbatim>\<open>_get()\<close> (when it is not
  inside it already); the task makes a step; \<^verbatim>\<open>_get\<close> is resumed; somebody puts an item
  into an object of the store. The state pairs the status of \<^verbatim>\<open>_get\<close> (\<open>None\<close> before
  the first call) with the consumer.
\<close>

datatype 'a event =
    Call "'a consumer_call"
  | Enter_get
  | Task_step "exc option"
  | Resume_get
  | Feed ref 'a

fun step :: "'a event \<Rightarrow> 'a awaited option \<times> 'a consumer \<Rightarrow> 'a awaited option \<times> 'a consumer" where
  "step (Call f) (st, c) = (st, consumer_exec f c)"
| "step Enter_get (st, c) =
     (case st of
        Some Suspended \<Rightarrow> (st, c)
      | _ \<Rightarrow> (let (a, c1) = get_loop c in (Some a, c1)))"
| "step (Task_step raises) (st, c) = (st, task_step raises c)"
| "step Resume_get (st, c) =
     (case st of
        Some Suspended \<Rightarrow> (let (a, c1) = get_resume c in (Some a, c1))
      | _ \<Rightarrow> (st, c))"
| "step (Feed r x) (st, c) = (st, c\<lparr>objs := (objs c)(r := obj_put_nowait x (objs c r))\<rparr>)"

definition run ::
  "'a event list \<Rightarrow> 'a awaited option \<times> 'a consumer \<Rightarrow> 'a awaited option \<times> 'a consumer" where
  "run evs s = fold step evs s"

subsection \<open>ThreadedSubscriptionConsumer\<close>

text \<open>
  \<^verbatim>\<open>_get\<close>, lines 653 to 671, runs in the worker thread. Each turn of the loop submits
  \<^verbatim>\<open>subscription.get()\<close> to the event loop with
  \<^verbatim>\<open>asyncio.run_coroutine_threadsafe\<close> and waits at most one second for the result
  (\<^verbatim>\<open>self._getTask.result(1)\<close>). Here \<^verbatim>\<open>_getTask\<close> is the
  \<^verbatim>\<open>concurrent.futures.Future\<close> that the submission returns, and it differs from a
  task in three ways.
  \<^item> \<^verbatim>\<open>cancel()\<close> on a handle that is not done completes it at once: the handle is
    cancelled, and done, when \<^verbatim>\<open>cancel()\<close> returns (\<open>future_cancel\<close>).
  \<^item> \<^verbatim>\<open>result(1)\<close> raises the exceptions of \<^verbatim>\<open>concurrent.futures\<close>: its
    \<^verbatim>\<open>CancelledError\<close> for a cancelled handle and its \<^verbatim>\<open>TimeoutError\<close> when the
    second has passed on a handle that is not done (\<open>future_result\<close>).
  \<^item> A timeout does not withdraw the wait that was submitted: that
    \<^verbatim>\<open>subscription.get()\<close> stays on the event loop, ahead of every later wait on the
    same subscription, and takes the next item, which nobody reads. \<open>abandoned\<close> lists
    the subscriptions of these waits, oldest first.

  The source catches \<^verbatim>\<open>asyncio.CancelledError\<close>, \<^verbatim>\<open>asyncio.TimeoutError\<close> and
  \<^verbatim>\<open>SubscriptionClosed\<close>, and has no bare \<^verbatim>\<open>except\<close>: any other exception leaves
  \<^verbatim>\<open>_get\<close>. Whether the two \<^verbatim>\<open>asyncio\<close> names denote the classes that
  \<^verbatim>\<open>result\<close> raises is a fact of the interpreter, not of the module, and is a
  parameter here. Up to CPython 3.7 \<^verbatim>\<open>asyncio\<close> takes both classes from
  \<^verbatim>\<open>concurrent.futures\<close>; from 3.8 it has classes of its own; from 3.11 both
  \<^verbatim>\<open>TimeoutError\<close>s are the builtin \<^verbatim>\<open>TimeoutError\<close>, the two
  \<^verbatim>\<open>CancelledError\<close>s staying apart. The exceptions \<open>CancelledError\<close> and
  \<open>TimeoutError\<close> are those raised under the \<^verbatim>\<open>asyncio\<close> names,
  \<open>FuturesCancelledError\<close> and \<open>FuturesTimeoutError\<close> those raised by the handle.

  \<^verbatim>\<open>putSubscription\<close> and \<^verbatim>\<open>close\<close> (lines 696, 697, 707 to 709) run the base
  operations under \<^verbatim>\<open>_taskLock\<close>, on this handle; \<^verbatim>\<open>stop\<close> and \<^verbatim>\<open>put_nowait\<close> are
  inherited and reach \<^verbatim>\<open>putSubscription\<close> through \<^verbatim>\<open>self\<close>. Each event below is one
  atomic step.
\<close>

datatype interpreter = CPython_37 | CPython_38_to_310 | CPython_from_311

definition timeout_same :: "interpreter \<Rightarrow> bool" where
  "timeout_same py =
     (case py of CPython_37 \<Rightarrow> True | CPython_38_to_310 \<Rightarrow> False | CPython_from_311 \<Rightarrow> True)"

definition cancelled_same :: "interpreter \<Rightarrow> bool" where
  "cancelled_same py =
     (case py of CPython_37 \<Rightarrow> True | CPython_38_to_310 \<Rightarrow> False | CPython_from_311 \<Rightarrow> False)"

text \<open>What \<^verbatim>\<open>except asyncio.CancelledError\<close> and \<^verbatim>\<open>except asyncio.TimeoutError\<close>
  catch.\<close>

definition is_asyncio_CancelledError :: "interpreter \<Rightarrow> exc \<Rightarrow> bool" where
  "is_asyncio_CancelledError py e =
     (e = CancelledError \<or> (e = FuturesCancelledError \<and> cancelled_same py))"

definition is_asyncio_TimeoutError :: "interpreter \<Rightarrow> exc \<Rightarrow> bool" where
  "is_asyncio_TimeoutError py e =
     (e = TimeoutError \<or> (e = FuturesTimeoutError \<and> timeout_same py))"

record 'a threaded_consumer = "'a consumer" +
  abandoned :: "ref list"

definition future_cancel :: "'a task \<Rightarrow> 'a task" where
  "future_cancel t = (if task_done t then t else t\<lparr>tstate := Cancelled\<rparr>)"

definition future_result :: "bool \<Rightarrow> 'a task \<Rightarrow> 'a awaited" where
  "future_result timed_out t =
     (case tstate t of
        Done v \<Rightarrow> Returned v
      | Cancelled \<Rightarrow> Raised FuturesCancelledError
      | Failed e \<Rightarrow> Raised e
      | _ \<Rightarrow> if timed_out then Raised FuturesTimeoutError else Suspended)"

text \<open>From the test of the loop to the wait on the handle, or to the \<^verbatim>\<open>raise\<close> after the
  loop.\<close>

definition threaded_get_loop ::
  "'a threaded_consumer \<Rightarrow> 'a awaited \<times> 'a threaded_consumer" where
  "threaded_get_loop c =
     (if \<not> shouldClose c
      then (Suspended, c\<lparr>getTask := Some (create_task (subscription c))\<rparr>)
      else (Raised SubscriptionClosed, c))"

text \<open>After \<^verbatim>\<open>result(1)\<close>: the value is returned; an exception goes through the three
  \<^verbatim>\<open>except\<close> clauses in their order. When \<^verbatim>\<open>result\<close> raises on a handle that is not
  done, the wait behind the handle is left on the event loop.\<close>

definition threaded_get_result ::
  "interpreter \<Rightarrow> bool \<Rightarrow> 'a threaded_consumer \<Rightarrow> 'a awaited \<times> 'a threaded_consumer" where
  "threaded_get_result py timed_out c =
     (case getTask c of
        None \<Rightarrow> (Raised AttributeError, c)
      | Some t \<Rightarrow>
          (case future_result timed_out t of
             Returned v \<Rightarrow> (Returned v, c)
           | Raised e \<Rightarrow>
               (let c1 = (if task_done t then c
                          else c\<lparr>abandoned := abandoned c @ [awaits t]\<rparr>)
                in if is_asyncio_CancelledError py e then threaded_get_loop c1
                   else if is_asyncio_TimeoutError py e then threaded_get_loop c1
                   else if e = SubscriptionClosed then threaded_get_loop c1
                   else (Raised e, c1))
           | Suspended \<Rightarrow> (Suspended, c)))"

definition threaded_putSubscription ::
  "ref \<Rightarrow> 'a threaded_consumer \<Rightarrow> 'a threaded_consumer" where
  "threaded_putSubscription s c =
     (if s = subscription c then c
      else (let c1 = c\<lparr>subscription := s\<rparr>
            in case getTask c1 of
                 None \<Rightarrow> c1
               | Some t \<Rightarrow>
                   if \<not> task_done t then c1\<lparr>getTask := Some (future_cancel t)\<rparr> else c1))"

definition threaded_stop :: "'a threaded_consumer \<Rightarrow> 'a threaded_consumer" where
  "threaded_stop c =
     (let (d, c1) = construct (directPutSubscriptionType c) c;
          c2 = c1\<lparr>directPutSubscription := d\<rparr>
      in threaded_putSubscription (directPutSubscription c2) c2)"

definition threaded_consumer_put_nowait ::
  "'a \<Rightarrow> 'a threaded_consumer \<Rightarrow> 'a threaded_consumer" where
  "threaded_consumer_put_nowait data c =
     (let c1 = (if subscription c \<noteq> directPutSubscription c then threaded_stop c else c);
          d = directPutSubscription c1
      in c1\<lparr>objs := (objs c1)(d := obj_put_nowait data (objs c1 d))\<rparr>)"

definition threaded_consumer_close :: "'a threaded_consumer \<Rightarrow> 'a threaded_consumer" where
  "threaded_consumer_close c =
     (let c1 = c\<lparr>ready := False\<rparr>;
          c2 = c1\<lparr>shouldClose := True\<rparr>
      in case getTask c2 of
           None \<Rightarrow> c2
         | Some t \<Rightarrow> if \<not> task_done t then c2\<lparr>getTask := Some (future_cancel t)\<rparr> else c2)"

fun threaded_consumer_exec ::
  "'a consumer_call \<Rightarrow> 'a threaded_consumer \<Rightarrow> 'a threaded_consumer" where
  "threaded_consumer_exec (Put_nowait x) c = threaded_consumer_put_nowait x c"
| "threaded_consumer_exec (PutSubscription s) c = threaded_putSubscription s c"
| "threaded_consumer_exec Stop c = threaded_stop c"
| "threaded_consumer_exec Close_consumer c = threaded_consumer_close c"

text \<open>
  One step, on the event loop, of the wait behind the handle. The subscription raises
  what it chooses to raise (\<open>Some e\<close>), or gives the head of its buffer: to the oldest
  abandoned wait on it when there is one, and to the handle otherwise.
  \<open>abandoned_step\<close> is the step of an abandoned wait on any subscription.
\<close>

definition threaded_task_step ::
  "exc option \<Rightarrow> 'a threaded_consumer \<Rightarrow> 'a threaded_consumer" where
  "threaded_task_step raises c =
     (case getTask c of
        None \<Rightarrow> c
      | Some t \<Rightarrow>
          (case tstate t of
             Pending \<Rightarrow>
               (case raises of
                  Some e \<Rightarrow> c\<lparr>getTask := Some (t\<lparr>tstate := Failed e\<rparr>)\<rparr>
                | None \<Rightarrow>
                    (case items (objs c (awaits t)) of
                       [] \<Rightarrow> c
                     | x # xs \<Rightarrow>
                         if awaits t \<in> set (abandoned c)
                         then c\<lparr>objs := (objs c)(awaits t := (objs c (awaits t))\<lparr>items := xs\<rparr>),
                                abandoned := remove1 (awaits t) (abandoned c)\<rparr>
                         else c\<lparr>objs := (objs c)(awaits t := (objs c (awaits t))\<lparr>items := xs\<rparr>),
                                getTask := Some (t\<lparr>tstate := Done x\<rparr>)\<rparr>))
           | _ \<Rightarrow> c))"

definition abandoned_step :: "ref \<Rightarrow> 'a threaded_consumer \<Rightarrow> 'a threaded_consumer" where
  "abandoned_step r c =
     (if r \<in> set (abandoned c)
      then (case items (objs c r) of
              [] \<Rightarrow> c
            | x # xs \<Rightarrow>
                c\<lparr>objs := (objs c)(r := (objs c r)\<lparr>items := xs\<rparr>),
                  abandoned := remove1 r (abandoned c)\<rparr>)
      else c)"

datatype 'a thread_event =
    Loop_event "'a event"
  | Timeout_elapsed
  | Abandoned_step ref

fun threaded_step ::
  "interpreter \<Rightarrow> 'a thread_event \<Rightarrow> 'a awaited option \<times> 'a threaded_consumer
     \<Rightarrow> 'a awaited option \<times> 'a threaded_consumer" where
  "threaded_step py (Loop_event (Call f)) (st, c) = (st, threaded_consumer_exec f c)"
| "threaded_step py (Loop_event Enter_get) (st, c) =
     (case st of
        Some Suspended \<Rightarrow> (st, c)
      | _ \<Rightarrow> (let (a, c1) = threaded_get_loop c in (Some a, c1)))"
| "threaded_step py (Loop_event (Task_step raises)) (st, c) = (st, threaded_task_step raises c)"
| "threaded_step py (Loop_event Resume_get) (st, c) =
     (case st of
        Some Suspended \<Rightarrow> (let (a, c1) = threaded_get_result py False c in (Some a, c1))
      | _ \<Rightarrow> (st, c))"
| "threaded_step py (Loop_event (Feed r x)) (st, c) =
     (st, c\<lparr>objs := (objs c)(r := obj_put_nowait x (objs c r))\<rparr>)"
| "threaded_step py Timeout_elapsed (st, c) =
     (case st of
        Some Suspended \<Rightarrow> (let (a, c1) = threaded_get_result py True c in (Some a, c1))
      | _ \<Rightarrow> (st, c))"
| "threaded_step py (Abandoned_step r) (st, c) = (st, abandoned_step r c)"

definition threaded_run ::
  "interpreter \<Rightarrow> 'a thread_event list \<Rightarrow> 'a awaited option \<times> 'a threaded_consumer
     \<Rightarrow> 'a awaited option \<times> 'a threaded_consumer" where
  "threaded_run py evs s = fold (threaded_step py) evs s"

section \<open>Notions used by the statements\<close>

text \<open>An object is registered when one of the three registries holds it;
  \<open>registry_count\<close> is the number of registries that do.\<close>

definition registered :: "ref \<Rightarrow> ('a, 'z) producer_scheme \<Rightarrow> bool" where
  "registered r p = (r |\<in>| subscriptions p \<or> r |\<in>| cocallbacks p \<or> r |\<in>| callbacks p)"

definition registry_count :: "ref \<Rightarrow> ('a, 'z) producer_scheme \<Rightarrow> nat" where
  "registry_count r p =
     (if r |\<in>| subscriptions p then 1 else 0) +
     (if r |\<in>| cocallbacks p then 1 else 0) +
     (if r |\<in>| callbacks p then 1 else 0)"

text \<open>Every registered object exists in the store and sits in the registry that
  \<^verbatim>\<open>subscribe\<close> chooses for its capabilities.\<close>

definition registry_ok :: "('a, 'z) producer_scheme \<Rightarrow> bool" where
  "registry_ok p =
     (fBall (subscriptions p) (\<lambda>r. r < next_ref p \<and> has_put_nowait (objs p r)) \<and>
      fBall (cocallbacks p)
        (\<lambda>r. r < next_ref p \<and> \<not> has_put_nowait (objs p r) \<and>
             is_coroutinefunction (objs p r)) \<and>
      fBall (callbacks p)
        (\<lambda>r. r < next_ref p \<and> \<not> has_put_nowait (objs p r) \<and>
             \<not> is_coroutinefunction (objs p r)))"

text \<open>The argument of a call is absent or an object of the store.\<close>

definition exists_in :: "ref option \<Rightarrow> ('a, 'z) component_scheme \<Rightarrow> bool" where
  "exists_in a s = (case a of None \<Rightarrow> True | Some r \<Rightarrow> r < next_ref s)"

fun subscribe_all ::
  "ref option list \<Rightarrow> ('a, 'z) producer_scheme \<Rightarrow> ('a, 'z) producer_scheme" where
  "subscribe_all [] p = p"
| "subscribe_all (a # as) p = subscribe_all as (snd (subscribe a p))"

text \<open>Every argument of a sequence of \<^verbatim>\<open>subscribe\<close> calls exists when its call is made;
  \<open>n\<close> is the next free reference.\<close>

fun all_exist :: "ref option list \<Rightarrow> ref \<Rightarrow> bool" where
  "all_exist [] n = True"
| "all_exist (None # as) n = all_exist as (Suc n)"
| "all_exist (Some r # as) n = (r < n \<and> all_exist as n)"

text \<open>The items that the events of a run put into the object \<open>r\<close> from outside.\<close>

fun fed_to :: "ref \<Rightarrow> 'a event list \<Rightarrow> 'a list" where
  "fed_to r [] = []"
| "fed_to r (Feed r' x # evs) = (if r' = r then x # fed_to r evs else fed_to r evs)"
| "fed_to r (e # evs) = fed_to r evs"

text \<open>Calls that leave the default subscription alone.\<close>

fun keeps_default :: "'a producer_call \<Rightarrow> bool" where
  "keeps_default Get = True"
| "keeps_default (Broadcast x) = True"
| "keeps_default (Subscribe a) = True"
| "keeps_default c = False"

text \<open>
  The state of a run in which the subscription \<open>old\<close> has been replaced while a wait
  was in flight: \<open>old\<close> is not active, its buffer is \<open>its\<close>, a task that awaits it
  is cancelled or about to be, a value that \<^verbatim>\<open>_get\<close> has returned is the result of the
  current task, and \<^verbatim>\<open>_get\<close> has raised nothing but \<^verbatim>\<open>SubscriptionClosed\<close> after a
  \<^verbatim>\<open>close\<close>.
\<close>

definition detached :: "ref \<Rightarrow> 'a list \<Rightarrow> 'a awaited option \<times> 'a consumer \<Rightarrow> bool" where
  "detached old its s =
     (case s of (st, c) \<Rightarrow>
        subscription c \<noteq> old \<and> old < next_ref c \<and> items (objs c old) = its \<and>
        (case getTask c of
           None \<Rightarrow> (case st of Some (Returned v) \<Rightarrow> False | _ \<Rightarrow> True)
         | Some t \<Rightarrow>
             (awaits t = old \<longrightarrow> tstate t = CancelRequested \<or> tstate t = Cancelled) \<and>
             (case st of Some (Returned v) \<Rightarrow> tstate t = Done v | _ \<Rightarrow> True)) \<and>
        (case st of Some (Raised e) \<Rightarrow> e = SubscriptionClosed \<and> shouldClose c | _ \<Rightarrow> True))"

section \<open>Examples\<close>

text \<open>A store with a queue at 0, a coroutine function at 1 and plain callables
  elsewhere; a producer and a consumer made in it.\<close>

definition example_store :: "ref \<Rightarrow> int pyobj" where
  "example_store =
     (\<lambda>r. new_object \<lparr>inst_has_put_nowait = False, inst_is_coroutinefunction = False\<rparr>)
       (0 := new_object asyncio_Queue,
        1 := new_object \<lparr>inst_has_put_nowait = False, inst_is_coroutinefunction = True\<rparr>)"

definition example_producer :: "int producer" where
  "example_producer = producer_init example_store 3 asyncio_Queue False True"

definition example_consumer :: "int consumer" where
  "example_consumer = consumer_init example_store 3 asyncio_Queue True"

text \<open>The example producer with objects 0 and 1 subscribed, and then after a first
  \<^verbatim>\<open>get\<close>.\<close>

definition example_subscribed :: "int producer" where
  "example_subscribed = subscribe_all [Some 0, Some 1] example_producer"

definition example_with_default :: "int producer" where
  "example_with_default = snd (producer_get example_subscribed)"

text \<open>The example consumer with the queue 0 installed as its subscription.\<close>

definition example_external :: "int consumer" where
  "example_external = putSubscription 0 example_consumer"

text \<open>A thread-bridged and a process-bridged producer over the example store, and the
  example consumer inside \<^verbatim>\<open>_get\<close>, waiting on its direct-feed queue.\<close>

definition example_threaded :: "int threaded_producer" where
  "example_threaded =
     \<lparr>objs = example_store, next_ref = 3, shouldClose = False, ready = False,
      subscriptions = {|0|}, callbacks = {||}, cocallbacks = {||},
      defaultSubscriptionClass = asyncio_Queue, defaultSubscription = None,
      scheduled = []\<rparr>"

definition example_process :: "int process_producer" where
  "example_process =
     \<lparr>objs = example_store, next_ref = 3, shouldClose = False, ready = False,
      subscriptions = {|0|}, callbacks = {||}, cocallbacks = {||},
      defaultSubscriptionClass = asyncio_Queue, defaultSubscription = None,
      producerQueue = []\<rparr>"

definition example_waiting :: "int consumer" where
  "example_waiting = snd (get_loop example_consumer)"

text \<open>The waiting example consumer after an item has come to its subscription and the
  task has taken it, \<^verbatim>\<open>_get\<close> not being resumed yet.\<close>

definition example_taken :: "int consumer" where
  "example_taken = snd (run [Feed 3 5, Task_step None] (Some Suspended, example_waiting))"

text \<open>A thread-bridged consumer over the example store, and the same inside \<^verbatim>\<open>_get\<close>,
  waiting on its direct-feed queue.\<close>

definition example_threaded_consumer :: "int threaded_consumer" where
  "example_threaded_consumer =
     \<lparr>objs = example_store(3 := new_object asyncio_Queue), next_ref = 4,
      shouldClose = False, ready = True,
      directPutSubscriptionType = asyncio_Queue, directPutSubscription = 3,
      subscription = 3, getTask = None, abandoned = []\<rparr>"

definition example_threaded_waiting :: "int threaded_consumer" where
  "example_threaded_waiting = snd (threaded_get_loop example_threaded_consumer)"

section \<open>Broadcast\<close>

lemma fold_update_distinct:
  "distinct rs \<Longrightarrow>
   fold (\<lambda>r h'. h'(r := f (h' r))) rs h r = (if r \<in> set rs then f (h r) else h r)"
  by (induction rs arbitrary: h) auto

lemma for_each_apply: "for_each S f h r = (if r |\<in>| S then f (h r) else h r)"
  unfolding for_each_def
  by (simp add: fold_update_distinct sorted_list_of_fset.rep_eq)

lemma put_nowait_items:
  "items (objs (producer_put_nowait x p) r) =
     (if r |\<in>| subscriptions p then items (objs p r) @ [x] else items (objs p r))"
  by (simp add: producer_put_nowait_def Let_def for_each_apply obj_put_nowait_def
      obj_call_def obj_ensure_future_def)

lemma put_nowait_calls:
  "calls (objs (producer_put_nowait x p) r) =
     (if r |\<in>| callbacks p then calls (objs p r) @ [x] else calls (objs p r))"
  by (simp add: producer_put_nowait_def Let_def for_each_apply obj_put_nowait_def
      obj_call_def obj_ensure_future_def)

lemma put_nowait_futures:
  "futures (objs (producer_put_nowait x p) r) =
     (if r |\<in>| cocallbacks p then futures (objs p r) @ [x] else futures (objs p r))"
  by (simp add: producer_put_nowait_def Let_def for_each_apply obj_put_nowait_def
      obj_call_def obj_ensure_future_def)

lemma put_nowait_frame:
  "subscriptions (producer_put_nowait x p) = subscriptions p"
  "callbacks (producer_put_nowait x p) = callbacks p"
  "cocallbacks (producer_put_nowait x p) = cocallbacks p"
  "defaultSubscription (producer_put_nowait x p) = defaultSubscription p"
  "defaultSubscriptionClass (producer_put_nowait x p) = defaultSubscriptionClass p"
  "next_ref (producer_put_nowait x p) = next_ref p"
  "shouldClose (producer_put_nowait x p) = shouldClose p"
  "ready (producer_put_nowait x p) = ready p"
  by (simp_all add: producer_put_nowait_def Let_def)

lemma put_nowait_caps:
  "has_put_nowait (objs (producer_put_nowait x p) r) = has_put_nowait (objs p r)"
  "is_coroutinefunction (objs (producer_put_nowait x p) r) = is_coroutinefunction (objs p r)"
  by (simp_all add: producer_put_nowait_def Let_def for_each_apply obj_put_nowait_def
      obj_call_def obj_ensure_future_def)

lemma broadcast_all_frame:
  "subscriptions (broadcast_all xs p) = subscriptions p"
  "callbacks (broadcast_all xs p) = callbacks p"
  "cocallbacks (broadcast_all xs p) = cocallbacks p"
  "defaultSubscription (broadcast_all xs p) = defaultSubscription p"
  "defaultSubscriptionClass (broadcast_all xs p) = defaultSubscriptionClass p"
  "next_ref (broadcast_all xs p) = next_ref p"
  "shouldClose (broadcast_all xs p) = shouldClose p"
  unfolding broadcast_all_def
  by (induction xs arbitrary: p) (simp_all add: put_nowait_frame)

lemma broadcast_all_caps:
  "has_put_nowait (objs (broadcast_all xs p) r) = has_put_nowait (objs p r)"
  "is_coroutinefunction (objs (broadcast_all xs p) r) = is_coroutinefunction (objs p r)"
  unfolding broadcast_all_def
  by (induction xs arbitrary: p) (simp_all add: put_nowait_caps)

lemma broadcast_all_items:
  "items (objs (broadcast_all xs p) r) =
     (if r |\<in>| subscriptions p then items (objs p r) @ xs else items (objs p r))"
  unfolding broadcast_all_def
  by (induction xs arbitrary: p) (simp_all add: put_nowait_items put_nowait_frame)

lemma broadcast_all_calls:
  "calls (objs (broadcast_all xs p) r) =
     (if r |\<in>| callbacks p then calls (objs p r) @ xs else calls (objs p r))"
  unfolding broadcast_all_def
  by (induction xs arbitrary: p) (simp_all add: put_nowait_calls put_nowait_frame)

lemma broadcast_all_futures:
  "futures (objs (broadcast_all xs p) r) =
     (if r |\<in>| cocallbacks p then futures (objs p r) @ xs else futures (objs p r))"
  unfolding broadcast_all_def
  by (induction xs arbitrary: p) (simp_all add: put_nowait_futures put_nowait_frame)

lemma subscribe_then_broadcast:
  "has_put_nowait (objs p r) \<Longrightarrow>
   items (objs (broadcast_all xs (snd (subscribe (Some r) p))) r) = items (objs p r) @ xs"
  by (simp add: broadcast_all_items subscribe_def)

lemma subscribe_new_then_broadcast:
  "inst_has_put_nowait (defaultSubscriptionClass p) \<Longrightarrow>
   items (objs (broadcast_all xs (snd (subscribe None p))) (fst (subscribe None p))) = xs"
  by (simp add: broadcast_all_items subscribe_def construct_def new_object_def Let_def)

text \<open>
  C1. One broadcast puts the item once at the end of the buffer of every queue-like
  subscription, calls every synchronous callback once with it and schedules one
  invocation of every asynchronous callback with it; objects outside a registry get
  nothing from that registry's loop and the registries stay as they were. Hence over a
  sequence of broadcasts a registered queue-like subscription holds, after what it held
  before, exactly the items broadcast, each once and in the order broadcast; the
  callbacks see the same sequence. The same holds for an object from its
  \<^verbatim>\<open>subscribe\<close> on, whether passed in or made by \<^verbatim>\<open>subscribe\<close>.
\<close>

theorem broadcast_delivers:
  "items (objs (producer_put_nowait x p) r) =
     (if r |\<in>| subscriptions p then items (objs p r) @ [x] else items (objs p r))
   \<and> calls (objs (producer_put_nowait x p) r) =
     (if r |\<in>| callbacks p then calls (objs p r) @ [x] else calls (objs p r))
   \<and> futures (objs (producer_put_nowait x p) r) =
     (if r |\<in>| cocallbacks p then futures (objs p r) @ [x] else futures (objs p r))
   \<and> subscriptions (producer_put_nowait x p) = subscriptions p
   \<and> callbacks (producer_put_nowait x p) = callbacks p
   \<and> cocallbacks (producer_put_nowait x p) = cocallbacks p
   \<and> items (objs (broadcast_all xs p) r) =
     (if r |\<in>| subscriptions p then items (objs p r) @ xs else items (objs p r))
   \<and> calls (objs (broadcast_all xs p) r) =
     (if r |\<in>| callbacks p then calls (objs p r) @ xs else calls (objs p r))
   \<and> futures (objs (broadcast_all xs p) r) =
     (if r |\<in>| cocallbacks p then futures (objs p r) @ xs else futures (objs p r))
   \<and> (has_put_nowait (objs p r) \<longrightarrow>
        items (objs (broadcast_all xs (snd (subscribe (Some r) p))) r) = items (objs p r) @ xs)
   \<and> (inst_has_put_nowait (defaultSubscriptionClass p) \<longrightarrow>
        items (objs (broadcast_all xs (snd (subscribe None p))) (fst (subscribe None p))) = xs)"
  using subscribe_then_broadcast [of p r xs] subscribe_new_then_broadcast [of p xs]
  by (simp add: put_nowait_items put_nowait_calls put_nowait_futures put_nowait_frame
      broadcast_all_calls broadcast_all_futures
      broadcast_all_items [of xs p r])

section \<open>Registration\<close>

lemma registry_ok_count: "registry_ok p \<Longrightarrow> registry_count r p \<le> 1"
  by (auto simp: registry_ok_def registry_count_def)

lemma subscribe_Some:
  "subscribe (Some r) p =
     (r, if has_put_nowait (objs p r) then p\<lparr>subscriptions := finsert r (subscriptions p)\<rparr>
         else if is_coroutinefunction (objs p r)
         then p\<lparr>cocallbacks := finsert r (cocallbacks p)\<rparr>
         else p\<lparr>callbacks := finsert r (callbacks p)\<rparr>)"
  by (simp add: subscribe_def)

lemma subscribe_None:
  "subscribe None p =
     (let s = next_ref p;
          p1 = p\<lparr>objs := (objs p)(s := new_object (defaultSubscriptionClass p)),
                 next_ref := Suc s\<rparr>
      in (s, if inst_has_put_nowait (defaultSubscriptionClass p)
             then p1\<lparr>subscriptions := finsert s (subscriptions p)\<rparr>
             else if inst_is_coroutinefunction (defaultSubscriptionClass p)
             then p1\<lparr>cocallbacks := finsert s (cocallbacks p)\<rparr>
             else p1\<lparr>callbacks := finsert s (callbacks p)\<rparr>))"
  by (simp add: subscribe_def construct_def new_object_def Let_def)

lemma subscribe_fst:
  "fst (subscribe a p) = (case a of None \<Rightarrow> next_ref p | Some r \<Rightarrow> r)"
  by (cases a) (simp_all add: subscribe_Some subscribe_None Let_def)

lemma subscribe_new_object:
  "objs (snd (subscribe None p)) (next_ref p) = new_object (defaultSubscriptionClass p)"
  by (simp add: subscribe_None Let_def)

lemma subscribe_subscriptions:
  "subscriptions (snd (subscribe a p)) =
     (if has_put_nowait (objs (snd (subscribe a p)) (fst (subscribe a p)))
      then finsert (fst (subscribe a p)) (subscriptions p) else subscriptions p)"
  by (cases a) (simp_all add: subscribe_Some subscribe_None Let_def new_object_def)

lemma subscribe_cocallbacks:
  "cocallbacks (snd (subscribe a p)) =
     (if \<not> has_put_nowait (objs (snd (subscribe a p)) (fst (subscribe a p))) \<and>
         is_coroutinefunction (objs (snd (subscribe a p)) (fst (subscribe a p)))
      then finsert (fst (subscribe a p)) (cocallbacks p) else cocallbacks p)"
  by (cases a) (simp_all add: subscribe_Some subscribe_None Let_def new_object_def)

lemma subscribe_callbacks:
  "callbacks (snd (subscribe a p)) =
     (if \<not> has_put_nowait (objs (snd (subscribe a p)) (fst (subscribe a p))) \<and>
         \<not> is_coroutinefunction (objs (snd (subscribe a p)) (fst (subscribe a p)))
      then finsert (fst (subscribe a p)) (callbacks p) else callbacks p)"
  by (cases a) (simp_all add: subscribe_Some subscribe_None Let_def new_object_def)

lemma subscribe_registry_ok:
  "registry_ok p \<Longrightarrow> exists_in a p \<Longrightarrow> registry_ok (snd (subscribe a p))"
  by (cases a)
     (auto simp: subscribe_Some subscribe_None Let_def registry_ok_def exists_in_def
        new_object_def less_Suc_eq)

lemma subscribe_count:
  "registry_ok p \<Longrightarrow> exists_in a p \<Longrightarrow>
   registry_count (fst (subscribe a p)) (snd (subscribe a p)) = 1"
  by (cases a)
     (auto simp: subscribe_Some subscribe_None Let_def registry_ok_def exists_in_def
        new_object_def registry_count_def)

lemma subscribe_again:
  "subscribe (Some (fst (subscribe a p))) (snd (subscribe a p)) =
     (fst (subscribe a p), snd (subscribe a p))"
  by (cases a)
     (auto simp: subscribe_Some subscribe_None Let_def new_object_def finsert_absorb)

lemma subscribe_next_ref:
  "next_ref (snd (subscribe a p)) =
     (case a of None \<Rightarrow> Suc (next_ref p) | Some r \<Rightarrow> next_ref p)"
  by (cases a) (simp_all add: subscribe_Some subscribe_None Let_def)

lemma subscribe_all_ok:
  "registry_ok p \<Longrightarrow> all_exist as (next_ref p) \<Longrightarrow> registry_ok (subscribe_all as p)"
proof (induction as arbitrary: p)
  case Nil
  then show ?case by simp
next
  case (Cons a as)
  have ex: "exists_in a p"
    using Cons.prems(2) by (cases a) (simp_all add: exists_in_def)
  have nxt: "all_exist as (next_ref (snd (subscribe a p)))"
    using Cons.prems(2) by (cases a) (simp_all add: subscribe_next_ref)
  from Cons.prems(1) ex have "registry_ok (snd (subscribe a p))"
    by (rule subscribe_registry_ok)
  with nxt show ?case
    using Cons.IH by simp
qed

lemma init_registry_ok: "registry_ok (producer_init h n cls auto rdy)"
  by (auto simp: producer_init_def Let_def defaultSubscribe_def subscribe_None registry_ok_def
      new_object_def)

lemma subscribe_all_count:
  "registry_ok q \<Longrightarrow> all_exist as (next_ref q) \<longrightarrow>
     (\<forall>r. registry_count r (subscribe_all as q) \<le> 1)"
  by (blast intro: subscribe_all_ok registry_ok_count)

text \<open>
  C5. \<^verbatim>\<open>subscribe\<close> returns the object passed in, or the new instance of the default
  class when none is passed; it adds that object to the registry its capabilities choose
  (\<^verbatim>\<open>put_nowait\<close> first, then coroutine function, else plain callback) and to no other,
  so that it is in exactly one registry afterwards; subscribing the same object again
  changes nothing. From a producer as \<^verbatim>\<open>__init__\<close> leaves it, and from every state in
  which the registries agree with the capabilities, any sequence of \<^verbatim>\<open>subscribe\<close> calls
  on existing objects leaves every object in at most one registry.
\<close>

theorem subscribe_classifies:
  assumes "registry_ok p" and "exists_in a p"
  shows "fst (subscribe a p) = (case a of None \<Rightarrow> next_ref p | Some r \<Rightarrow> r)
       \<and> objs (snd (subscribe None p)) (next_ref p) = new_object (defaultSubscriptionClass p)
       \<and> subscriptions (snd (subscribe a p)) =
           (if has_put_nowait (objs (snd (subscribe a p)) (fst (subscribe a p)))
            then finsert (fst (subscribe a p)) (subscriptions p) else subscriptions p)
       \<and> cocallbacks (snd (subscribe a p)) =
           (if \<not> has_put_nowait (objs (snd (subscribe a p)) (fst (subscribe a p))) \<and>
               is_coroutinefunction (objs (snd (subscribe a p)) (fst (subscribe a p)))
            then finsert (fst (subscribe a p)) (cocallbacks p) else cocallbacks p)
       \<and> callbacks (snd (subscribe a p)) =
           (if \<not> has_put_nowait (objs (snd (subscribe a p)) (fst (subscribe a p))) \<and>
               \<not> is_coroutinefunction (objs (snd (subscribe a p)) (fst (subscribe a p)))
            then finsert (fst (subscribe a p)) (callbacks p) else callbacks p)
       \<and> registry_count (fst (subscribe a p)) (snd (subscribe a p)) = 1
       \<and> subscribe (Some (fst (subscribe a p))) (snd (subscribe a p)) = subscribe a p
       \<and> (all_exist as (next_ref p) \<longrightarrow>
            (\<forall>r. registry_count r (subscribe_all as p) \<le> 1))
       \<and> (all_exist as (next_ref (producer_init h n cls auto rdy)) \<longrightarrow>
            (\<forall>r. registry_count r (subscribe_all as (producer_init h n cls auto rdy)) \<le> 1))"
proof (intro conjI)
  show "fst (subscribe a p) = (case a of None \<Rightarrow> next_ref p | Some r \<Rightarrow> r)"
    by (rule subscribe_fst)
  show "objs (snd (subscribe None p)) (next_ref p) = new_object (defaultSubscriptionClass p)"
    by (rule subscribe_new_object)
  show "subscriptions (snd (subscribe a p)) =
           (if has_put_nowait (objs (snd (subscribe a p)) (fst (subscribe a p)))
            then finsert (fst (subscribe a p)) (subscriptions p) else subscriptions p)"
    by (rule subscribe_subscriptions)
  show "cocallbacks (snd (subscribe a p)) =
           (if \<not> has_put_nowait (objs (snd (subscribe a p)) (fst (subscribe a p))) \<and>
               is_coroutinefunction (objs (snd (subscribe a p)) (fst (subscribe a p)))
            then finsert (fst (subscribe a p)) (cocallbacks p) else cocallbacks p)"
    by (rule subscribe_cocallbacks)
  show "callbacks (snd (subscribe a p)) =
           (if \<not> has_put_nowait (objs (snd (subscribe a p)) (fst (subscribe a p))) \<and>
               \<not> is_coroutinefunction (objs (snd (subscribe a p)) (fst (subscribe a p)))
            then finsert (fst (subscribe a p)) (callbacks p) else callbacks p)"
    by (rule subscribe_callbacks)
  show "registry_count (fst (subscribe a p)) (snd (subscribe a p)) = 1"
    using assms by (rule subscribe_count)
  show "subscribe (Some (fst (subscribe a p))) (snd (subscribe a p)) = subscribe a p"
    by (simp add: subscribe_again)
  show "all_exist as (next_ref p) \<longrightarrow> (\<forall>r. registry_count r (subscribe_all as p) \<le> 1)"
    using assms(1) by (rule subscribe_all_count)
  show "all_exist as (next_ref (producer_init h n cls auto rdy)) \<longrightarrow>
            (\<forall>r. registry_count r (subscribe_all as (producer_init h n cls auto rdy)) \<le> 1)"
    using init_registry_ok by (rule subscribe_all_count)
qed

theorem subscribe_classifies_witness:
  "registry_ok example_producer \<and> exists_in (Some 1) example_producer
   \<and> all_exist [Some 0, None, Some 3, Some 1, Some 2, Some 0] (next_ref example_producer)
   \<and> fst (subscribe (Some 1) example_producer) = 1
   \<and> registry_count 1 (snd (subscribe (Some 1) example_producer)) = 1
   \<and> cocallbacks (snd (subscribe (Some 1) example_producer)) = {|1|}
   \<and> registry_count 0
       (subscribe_all [Some 0, None, Some 3, Some 1, Some 2, Some 0] example_producer) \<le> 1"
proof -
  have ok: "registry_ok example_producer"
    unfolding example_producer_def by (rule init_registry_ok)
  have ex: "exists_in (Some 1) example_producer"
    by (simp add: exists_in_def example_producer_def producer_init_def)
  have seq: "all_exist [Some 0, None, Some 3, Some 1, Some 2, Some 0]
               (next_ref example_producer)"
    by (simp add: example_producer_def producer_init_def)
  have caps: "\<not> has_put_nowait (objs example_producer 1)"
    "is_coroutinefunction (objs example_producer 1)"
    "cocallbacks example_producer = {||}"
    by (simp_all add: example_producer_def producer_init_def example_store_def new_object_def)
  have same: "objs (snd (subscribe (Some 1) example_producer)) 1 = objs example_producer 1"
    by (simp add: subscribe_Some)
  note th = subscribe_classifies [OF ok ex,
      of "[Some 0, None, Some 3, Some 1, Some 2, Some 0]"]
  from th have "fst (subscribe (Some 1) example_producer) =
      (case Some 1 of None \<Rightarrow> next_ref example_producer | Some r \<Rightarrow> r)"
    by blast
  then have c1: "fst (subscribe (Some 1) example_producer) = 1"
    by simp
  from th have "registry_count (fst (subscribe (Some 1) example_producer))
      (snd (subscribe (Some 1) example_producer)) = 1"
    by blast
  with c1 have c2: "registry_count 1 (snd (subscribe (Some 1) example_producer)) = 1"
    by simp
  from th have "cocallbacks (snd (subscribe (Some 1) example_producer)) =
      (if \<not> has_put_nowait (objs (snd (subscribe (Some 1) example_producer))
                 (fst (subscribe (Some 1) example_producer))) \<and>
          is_coroutinefunction (objs (snd (subscribe (Some 1) example_producer))
                 (fst (subscribe (Some 1) example_producer)))
       then finsert (fst (subscribe (Some 1) example_producer)) (cocallbacks example_producer)
       else cocallbacks example_producer)"
    by blast
  with c1 caps same have c3: "cocallbacks (snd (subscribe (Some 1) example_producer)) = {|1|}"
    by simp
  from th seq have c4: "registry_count 0
       (subscribe_all [Some 0, None, Some 3, Some 1, Some 2, Some 0] example_producer) \<le> 1"
    by blast
  from ok ex seq c1 c2 c3 c4 show ?thesis
    by blast
qed

section \<open>Removal\<close>

lemma fminus_absent: "s |\<notin>| A \<Longrightarrow> A |-| {|s|} = A"
  by auto

lemma unsubscribe_registered:
  "registry_ok p \<Longrightarrow> registered s p \<Longrightarrow>
   unsubscribe_object s p =
     Inr (p\<lparr>subscriptions := subscriptions p |-| {|s|},
            cocallbacks := cocallbacks p |-| {|s|},
            callbacks := callbacks p |-| {|s|}\<rparr>)"
  unfolding registry_ok_def registered_def unsubscribe_object_def set_remove_def
  by (auto simp: fminus_absent)

lemma unsubscribe_unregistered:
  "\<not> registered s p \<Longrightarrow> unsubscribe_object s p = Inl KeyError"
  unfolding registered_def unsubscribe_object_def set_remove_def
  by auto

lemma unsubscribe_registry_ok:
  "registry_ok p \<Longrightarrow> unsubscribe a p = Inr p' \<Longrightarrow> registry_ok p'"
  unfolding registry_ok_def unsubscribe_def unsubscribe_object_def set_remove_def
  by (auto split: option.splits if_splits sum.splits)

text \<open>
  C6. In a state whose registries agree with the capabilities, \<^verbatim>\<open>unsubscribe\<close> of a
  registered object succeeds and leaves the state with that object in no registry and
  everything else as it was; \<^verbatim>\<open>unsubscribe\<close> of an object that is in no registry raises
  \<^verbatim>\<open>KeyError\<close>. Without argument it returns the state unchanged when there is no default
  subscription, and otherwise removes the (registered) default subscription from the
  registries and forgets it.
\<close>

theorem unsubscribe_removes:
  assumes "registry_ok p"
  shows "(registered s p \<longrightarrow>
            unsubscribe (Some s) p =
              Inr (p\<lparr>subscriptions := subscriptions p |-| {|s|},
                     cocallbacks := cocallbacks p |-| {|s|},
                     callbacks := callbacks p |-| {|s|}\<rparr>))
       \<and> (\<not> registered s p \<longrightarrow> unsubscribe (Some s) p = Inl KeyError)
       \<and> (defaultSubscription p = None \<longrightarrow> unsubscribe None p = Inr p)
       \<and> (defaultSubscription p = Some d \<and> registered d p \<longrightarrow>
            unsubscribe None p =
              Inr (p\<lparr>subscriptions := subscriptions p |-| {|d|},
                     cocallbacks := cocallbacks p |-| {|d|},
                     callbacks := callbacks p |-| {|d|},
                     defaultSubscription := None\<rparr>))"
  using assms
  by (simp add: unsubscribe_def unsubscribe_registered unsubscribe_unregistered)


section \<open>The default subscription\<close>

lemma get_no_default:
  "defaultSubscription p = None \<Longrightarrow>
   producer_get p = (Suspended, (snd (subscribe None p))\<lparr>defaultSubscription := Some (next_ref p)\<rparr>)"
  by (simp add: producer_get_def defaultSubscribe_def subscribe_None Let_def new_object_def)

lemma get_with_default:
  "defaultSubscription p = Some d \<Longrightarrow>
   producer_get p =
     (case items (objs p d) of
        [] \<Rightarrow> (Suspended, p)
      | x # xs \<Rightarrow> (Returned x, p\<lparr>objs := (objs p)(d := (objs p d)\<lparr>items := xs\<rparr>)\<rparr>))"
  by (simp add: producer_get_def defaultSubscribe_def Let_def)

lemma get_registry_ok: "registry_ok p \<Longrightarrow> registry_ok (snd (producer_get p))"
proof (cases "defaultSubscription p")
  case None
  assume ok: "registry_ok p"
  have "registry_ok (snd (subscribe None p))"
    using ok by (simp add: subscribe_registry_ok exists_in_def)
  then show ?thesis
    using None by (simp add: get_no_default registry_ok_def)
next
  case (Some d)
  assume "registry_ok p"
  then show ?thesis
    using Some by (auto simp: get_with_default registry_ok_def split: list.splits)
qed

lemma put_nowait_registry_ok: "registry_ok p \<Longrightarrow> registry_ok (producer_put_nowait x p)"
  by (simp add: registry_ok_def put_nowait_frame put_nowait_caps)

lemma broadcast_all_registry_ok: "registry_ok p \<Longrightarrow> registry_ok (broadcast_all xs p)"
  by (simp add: registry_ok_def broadcast_all_frame broadcast_all_caps)

lemma unsubscribeAll_registry_ok: "registry_ok (unsubscribeAll p)"
  by (simp add: registry_ok_def unsubscribeAll_def)

lemma close_registry_ok: "registry_ok (producer_close p)"
  by (simp add: registry_ok_def producer_close_def unsubscribeAll_def Let_def)

text \<open>Every call on existing objects keeps the registries in agreement with the
  capabilities.\<close>

lemma producer_exec_registry_ok:
  assumes "registry_ok p" and "case c of Subscribe a \<Rightarrow> exists_in a p | _ \<Rightarrow> True"
  shows "registry_ok (producer_exec c p)"
proof (cases c)
  case (Subscribe a)
  with assms show ?thesis by (simp add: subscribe_registry_ok)
next
  case (Unsubscribe a)
  with assms(1) show ?thesis
    by (auto simp: unsubscribe_registry_ok split: sum.splits)
next
  case UnsubscribeAll
  then show ?thesis by (simp add: unsubscribeAll_registry_ok)
next
  case Get
  with assms(1) show ?thesis by (simp add: get_registry_ok)
next
  case Close
  then show ?thesis by (simp add: close_registry_ok)
next
  case (Broadcast x)
  with assms(1) show ?thesis by (simp add: put_nowait_registry_ok)
qed

lemma exec_keeps_default:
  "keeps_default c \<Longrightarrow> defaultSubscription p = Some d \<Longrightarrow>
   defaultSubscription (producer_exec c p) = Some d"
  by (cases c)
     (auto simp: get_with_default put_nowait_frame subscribe_def construct_def Let_def
       split: list.splits option.splits)

lemma run_keeps_default:
  "list_all keeps_default cs \<Longrightarrow> defaultSubscription p = Some d \<Longrightarrow>
   defaultSubscription (producer_run cs p) = Some d"
  unfolding producer_run_def
  by (induction cs arbitrary: p) (simp_all add: exec_keeps_default)

lemma get_reuses:
  assumes "defaultSubscription p = Some d"
  shows "defaultSubscription (snd (producer_get p)) = Some d"
    and "next_ref (snd (producer_get p)) = next_ref p"
    and "subscriptions (snd (producer_get p)) = subscriptions p"
    and "fst (producer_get p) =
           (case items (objs p d) of [] \<Rightarrow> Suspended | x # xs \<Rightarrow> Returned x)"
    and "items (objs (snd (producer_get p)) d) = tl (items (objs p d))"
  using assms by (simp_all add: get_with_default split: list.splits)

lemma get_creates:
  assumes "defaultSubscription p = None"
  shows "fst (producer_get p) = Suspended"
    and "defaultSubscription (snd (producer_get p)) = Some (next_ref p)"
    and "objs (snd (producer_get p)) (next_ref p) = new_object (defaultSubscriptionClass p)"
    and "registered (next_ref p) (snd (producer_get p))"
    and "next_ref (snd (producer_get p)) = Suc (next_ref p)"
    and "r \<noteq> next_ref p \<Longrightarrow> objs (snd (producer_get p)) r = objs p r"
    and "subscriptions (snd (producer_get p)) =
           (if inst_has_put_nowait (defaultSubscriptionClass p)
            then finsert (next_ref p) (subscriptions p) else subscriptions p)"
  using assms
  by (simp_all add: get_no_default subscribe_None Let_def registered_def)

lemma registered_exists: "registry_ok p \<Longrightarrow> registered d p \<Longrightarrow> d < next_ref p"
  by (auto simp: registry_ok_def registered_def)

lemma after_unsubscribe:
  assumes ok: "registry_ok p" and dflt: "defaultSubscription p = Some d"
    and reg: "registered d p"
    and p1: "p1 = p\<lparr>subscriptions := subscriptions p |-| {|d|},
                     cocallbacks := cocallbacks p |-| {|d|},
                     callbacks := callbacks p |-| {|d|},
                     defaultSubscription := None\<rparr>"
    and p3: "p3 = snd (producer_get (broadcast_all ys p1))"
  shows "fst (producer_get (broadcast_all ys p1)) = Suspended"
    and "defaultSubscription p3 = Some (next_ref p)"
    and "next_ref p \<noteq> d"
    and "items (objs p3 d) = items (objs p d)"
    and "items (objs p3 (next_ref p)) = []"
    and "inst_has_put_nowait (defaultSubscriptionClass p) \<longrightarrow>
           fst (producer_get (broadcast_all (z # zs) p3)) = Returned z"
proof -
  let ?p2 = "broadcast_all ys p1"
  have d_lt: "d < next_ref p"
    using ok reg by (rule registered_exists)
  have none2: "defaultSubscription ?p2 = None"
    by (simp add: broadcast_all_frame p1)
  have next2: "next_ref ?p2 = next_ref p"
    by (simp add: broadcast_all_frame p1)
  have cls2: "defaultSubscriptionClass ?p2 = defaultSubscriptionClass p"
    by (simp add: broadcast_all_frame p1)
  have items2: "items (objs ?p2 d) = items (objs p d)"
    by (simp add: broadcast_all_items p1)
  show "fst (producer_get ?p2) = Suspended"
    using none2 by (rule get_creates(1))
  show dflt3: "defaultSubscription p3 = Some (next_ref p)"
    unfolding p3 using get_creates(2) [OF none2] next2 by simp
  show ne: "next_ref p \<noteq> d"
    using d_lt by simp
  have "objs p3 d = objs ?p2 d"
    unfolding p3 using get_creates(6) [OF none2, of d] next2 d_lt by simp
  then show "items (objs p3 d) = items (objs p d)"
    using items2 by simp
  have new3: "objs p3 (next_ref p) = new_object (defaultSubscriptionClass p)"
    unfolding p3 using get_creates(3) [OF none2] next2 cls2 by simp
  then show empty3: "items (objs p3 (next_ref p)) = []"
    by (simp add: new_object_def)
  show "inst_has_put_nowait (defaultSubscriptionClass p) \<longrightarrow>
           fst (producer_get (broadcast_all (z # zs) p3)) = Returned z"
  proof
    assume q: "inst_has_put_nowait (defaultSubscriptionClass p)"
    have "next_ref p |\<in>| subscriptions p3"
      unfolding p3 using get_creates(7) [OF none2] next2 cls2 q by simp
    then have "items (objs (broadcast_all (z # zs) p3) (next_ref p)) = z # zs"
      using empty3 by (simp add: broadcast_all_items)
    moreover have "defaultSubscription (broadcast_all (z # zs) p3) = Some (next_ref p)"
      using dflt3 by (simp add: broadcast_all_frame)
    ultimately show "fst (producer_get (broadcast_all (z # zs) p3)) = Returned z"
      by (simp add: get_with_default)
  qed
qed


text \<open>
  C8. Without a default subscription \<^verbatim>\<open>get\<close> makes one: a new instance of the default
  class, registered, and the caller is suspended on its empty buffer. With a default
  subscription \<^verbatim>\<open>get\<close> makes no object and keeps the default: it gives the head of that
  subscription's buffer and leaves the rest for the next call, and the default stays
  the same over any run of \<^verbatim>\<open>get\<close>, \<^verbatim>\<open>subscribe\<close> and broadcasts. After
  \<^verbatim>\<open>unsubscribe()\<close> there is no default; the next \<^verbatim>\<open>get\<close>, whatever was broadcast in
  between, makes a default at a new reference with an empty buffer, is suspended, and
  leaves the backlog of the old default unread; with a queue-like default class the
  first item broadcast afterwards is what the following \<^verbatim>\<open>get\<close> returns.
\<close>

theorem default_subscription_lifecycle:
  assumes "registry_ok p"
  shows "(defaultSubscription p = None \<longrightarrow>
            fst (producer_get p) = Suspended
          \<and> defaultSubscription (snd (producer_get p)) = Some (next_ref p)
          \<and> objs (snd (producer_get p)) (next_ref p) = new_object (defaultSubscriptionClass p)
          \<and> registered (next_ref p) (snd (producer_get p)))
       \<and> (defaultSubscription p = Some d \<longrightarrow>
            defaultSubscription (snd (producer_get p)) = Some d
          \<and> next_ref (snd (producer_get p)) = next_ref p
          \<and> fst (producer_get p) =
              (case items (objs p d) of [] \<Rightarrow> Suspended | x # xs \<Rightarrow> Returned x)
          \<and> items (objs (snd (producer_get p)) d) = tl (items (objs p d))
          \<and> (list_all keeps_default cs \<longrightarrow>
                defaultSubscription (producer_run cs p) = Some d))
       \<and> (defaultSubscription p = Some d \<and> registered d p \<longrightarrow>
            (case unsubscribe None p of
               Inl e \<Rightarrow> False
             | Inr p1 \<Rightarrow>
                 defaultSubscription p1 = None
               \<and> fst (producer_get (broadcast_all ys p1)) = Suspended
               \<and> defaultSubscription (snd (producer_get (broadcast_all ys p1))) =
                   Some (next_ref p)
               \<and> next_ref p \<noteq> d
               \<and> items (objs (snd (producer_get (broadcast_all ys p1))) d) = items (objs p d)
               \<and> items (objs (snd (producer_get (broadcast_all ys p1))) (next_ref p)) = []
               \<and> (inst_has_put_nowait (defaultSubscriptionClass p) \<longrightarrow>
                    fst (producer_get
                          (broadcast_all (z # zs) (snd (producer_get (broadcast_all ys p1))))) =
                      Returned z)))"
proof (intro conjI impI)
  assume "defaultSubscription p = None"
  then show "fst (producer_get p) = Suspended"
    and "defaultSubscription (snd (producer_get p)) = Some (next_ref p)"
    and "objs (snd (producer_get p)) (next_ref p) = new_object (defaultSubscriptionClass p)"
    and "registered (next_ref p) (snd (producer_get p))"
    by (simp_all add: get_creates)
next
  assume "defaultSubscription p = Some d"
  then show "defaultSubscription (snd (producer_get p)) = Some d"
    and "next_ref (snd (producer_get p)) = next_ref p"
    and "fst (producer_get p) =
           (case items (objs p d) of [] \<Rightarrow> Suspended | x # xs \<Rightarrow> Returned x)"
    and "items (objs (snd (producer_get p)) d) = tl (items (objs p d))"
    by (simp_all add: get_reuses)
next
  assume "defaultSubscription p = Some d" and "list_all keeps_default cs"
  then show "defaultSubscription (producer_run cs p) = Some d"
    by (simp add: run_keeps_default)
next
  assume h: "defaultSubscription p = Some d \<and> registered d p"
  define p1 where "p1 = p\<lparr>subscriptions := subscriptions p |-| {|d|},
                     cocallbacks := cocallbacks p |-| {|d|},
                     callbacks := callbacks p |-| {|d|},
                     defaultSubscription := None\<rparr>"
  have un: "unsubscribe None p = Inr p1"
    using assms h by (simp add: unsubscribe_def unsubscribe_registered p1_def)
  have none1: "defaultSubscription p1 = None"
    by (simp add: p1_def)
  note after = after_unsubscribe [OF assms conjunct1 [OF h] conjunct2 [OF h] p1_def refl]
  show "case unsubscribe None p of
          Inl e \<Rightarrow> False
        | Inr p1 \<Rightarrow>
            defaultSubscription p1 = None
          \<and> fst (producer_get (broadcast_all ys p1)) = Suspended
          \<and> defaultSubscription (snd (producer_get (broadcast_all ys p1))) =
              Some (next_ref p)
          \<and> next_ref p \<noteq> d
          \<and> items (objs (snd (producer_get (broadcast_all ys p1))) d) = items (objs p d)
          \<and> items (objs (snd (producer_get (broadcast_all ys p1))) (next_ref p)) = []
          \<and> (inst_has_put_nowait (defaultSubscriptionClass p) \<longrightarrow>
               fst (producer_get
                     (broadcast_all (z # zs) (snd (producer_get (broadcast_all ys p1))))) =
                 Returned z)"
    unfolding un sum.case
    using none1 after by blast
qed


lemma example_producer_eq:
  "example_producer =
     \<lparr>objs = example_store, next_ref = 3, shouldClose = False, ready = True,
      subscriptions = {||}, callbacks = {||}, cocallbacks = {||},
      defaultSubscriptionClass = asyncio_Queue, defaultSubscription = None\<rparr>"
  by (simp add: example_producer_def producer_init_def)

lemma example_subscribed_eq:
  "example_subscribed =
     \<lparr>objs = example_store, next_ref = 3, shouldClose = False, ready = True,
      subscriptions = {|0|}, callbacks = {||}, cocallbacks = {|1|},
      defaultSubscriptionClass = asyncio_Queue, defaultSubscription = None\<rparr>"
  by (simp add: example_subscribed_def example_producer_eq subscribe_Some example_store_def
      new_object_def asyncio_Queue_def)

lemma example_subscribed_ok: "registry_ok example_subscribed"
  by (simp add: example_subscribed_eq registry_ok_def example_store_def new_object_def
      asyncio_Queue_def)

lemma example_with_default_ok: "registry_ok example_with_default"
  unfolding example_with_default_def
  by (rule get_registry_ok) (rule example_subscribed_ok)

lemma example_with_default_facts:
  "defaultSubscription example_with_default = Some 3"
  "registered 3 example_with_default"
  "next_ref example_with_default = 4"
  "subscriptions example_with_default = {|3, 0|}"
  "cocallbacks example_with_default = {|1|}"
  "callbacks example_with_default = {||}"
  "items (objs example_with_default 3) = []"
  by (simp_all add: example_with_default_def example_subscribed_eq get_no_default
      subscribe_None Let_def asyncio_Queue_def registered_def new_object_def)

theorem broadcast_delivers_witness:
  "has_put_nowait (objs example_subscribed 0)
   \<and> inst_has_put_nowait (defaultSubscriptionClass example_subscribed)
   \<and> items (objs (broadcast_all [1, 2, 3] example_subscribed) 0) = [1, 2, 3]
   \<and> futures (objs (broadcast_all [1, 2, 3] example_subscribed) 1) = [1, 2, 3]
   \<and> items (objs (broadcast_all [1, 2, 3] example_subscribed) 2) = []
   \<and> items (objs (broadcast_all [4, 5] (snd (subscribe (Some 0) example_subscribed))) 0) = [4, 5]
   \<and> items (objs (broadcast_all [4, 5] (snd (subscribe None example_subscribed)))
        (fst (subscribe None example_subscribed))) = [4, 5]"
proof -
  have caps: "has_put_nowait (objs example_subscribed 0)"
    "inst_has_put_nowait (defaultSubscriptionClass example_subscribed)"
    and mem: "0 |\<in>| subscriptions example_subscribed" "1 |\<in>| cocallbacks example_subscribed"
    "2 |\<notin>| subscriptions example_subscribed"
    and empty: "items (objs example_subscribed 0) = []" "futures (objs example_subscribed 1) = []"
    "items (objs example_subscribed 2) = []"
    by (simp_all add: example_subscribed_eq example_store_def new_object_def asyncio_Queue_def)
  have a: "items (objs (broadcast_all [1, 2, 3] example_subscribed) 0) = [1, 2, 3]"
    using broadcast_delivers [of _ example_subscribed 0 "[1, 2, 3]"] mem empty by simp
  have b: "futures (objs (broadcast_all [1, 2, 3] example_subscribed) 1) = [1, 2, 3]"
    using broadcast_delivers [of _ example_subscribed 1 "[1, 2, 3]"] mem empty by simp
  have c: "items (objs (broadcast_all [1, 2, 3] example_subscribed) 2) = []"
    using broadcast_delivers [of _ example_subscribed 2 "[1, 2, 3]"] mem empty by simp
  have d: "items (objs (broadcast_all [4, 5] (snd (subscribe (Some 0) example_subscribed))) 0) =
      [4, 5]"
    using broadcast_delivers [of _ example_subscribed 0 "[4, 5]"] caps empty by simp
  have e: "items (objs (broadcast_all [4, 5] (snd (subscribe None example_subscribed)))
        (fst (subscribe None example_subscribed))) = [4, 5]"
    using broadcast_delivers [of _ example_subscribed _ "[4, 5]"] caps by blast
  show ?thesis
    using caps a b c d e by blast
qed

theorem unsubscribe_removes_witness:
  "registry_ok example_subscribed \<and> registered 0 example_subscribed
   \<and> \<not> registered 2 example_subscribed \<and> defaultSubscription example_subscribed = None
   \<and> registry_ok example_with_default
   \<and> defaultSubscription example_with_default = Some 3 \<and> registered 3 example_with_default
   \<and> unsubscribe (Some 0) example_subscribed =
       Inr (example_subscribed\<lparr>subscriptions := {||}, cocallbacks := {|1|}, callbacks := {||}\<rparr>)
   \<and> unsubscribe (Some 2) example_subscribed = Inl KeyError
   \<and> unsubscribe None example_subscribed = Inr example_subscribed
   \<and> unsubscribe None example_with_default =
       Inr (example_with_default\<lparr>subscriptions := {|0|}, cocallbacks := {|1|},
              callbacks := {||}, defaultSubscription := None\<rparr>)"
proof -
  have r0: "registered 0 example_subscribed" and r2: "\<not> registered 2 example_subscribed"
    and dn: "defaultSubscription example_subscribed = None"
    by (simp_all add: example_subscribed_eq registered_def)
  have sets: "subscriptions example_subscribed |-| {|0|} = {||}"
    "cocallbacks example_subscribed |-| {|0|} = {|1|}"
    "callbacks example_subscribed |-| {|0|} = {||}"
    "subscriptions example_with_default |-| {|3|} = {|0|}"
    "cocallbacks example_with_default |-| {|3|} = {|1|}"
    "callbacks example_with_default |-| {|3|} = {||}"
    by (auto simp: example_subscribed_eq example_with_default_facts)
  note a = unsubscribe_removes [OF example_subscribed_ok, of 0]
  note b = unsubscribe_removes [OF example_subscribed_ok, of 2]
  note c = unsubscribe_removes [OF example_with_default_ok, of _ 3]
  have a1: "unsubscribe (Some 0) example_subscribed =
       Inr (example_subscribed\<lparr>subscriptions := {||}, cocallbacks := {|1|}, callbacks := {||}\<rparr>)"
    using a r0 sets by simp
  have b1: "unsubscribe (Some 2) example_subscribed = Inl KeyError"
    using b r2 by simp
  have b2: "unsubscribe None example_subscribed = Inr example_subscribed"
    using b dn by simp
  have c1: "unsubscribe None example_with_default =
       Inr (example_with_default\<lparr>subscriptions := {|0|}, cocallbacks := {|1|},
              callbacks := {||}, defaultSubscription := None\<rparr>)"
    using c example_with_default_facts(1,2) sets by simp
  show ?thesis
    using example_subscribed_ok example_with_default_ok r0 r2 dn
      example_with_default_facts(1,2) a1 b1 b2 c1
    by blast
qed

theorem default_subscription_lifecycle_witness:
  "registry_ok example_subscribed \<and> defaultSubscription example_subscribed = None
   \<and> registry_ok example_with_default
   \<and> defaultSubscription example_with_default = Some 3 \<and> registered 3 example_with_default
   \<and> list_all keeps_default [Broadcast (7::int), Get, Get, Subscribe None, Broadcast 8]
   \<and> inst_has_put_nowait (defaultSubscriptionClass example_with_default)
   \<and> defaultSubscription (snd (producer_get example_subscribed)) = Some 3
   \<and> defaultSubscription (snd (producer_get example_with_default)) = Some 3
   \<and> next_ref (snd (producer_get example_with_default)) = 4
   \<and> defaultSubscription
       (producer_run [Broadcast 7, Get, Get, Subscribe None, Broadcast 8] example_with_default) =
       Some 3
   \<and> (case unsubscribe None example_with_default of
         Inl e \<Rightarrow> False
       | Inr p1 \<Rightarrow>
           fst (producer_get (broadcast_all [5, 6] p1)) = Suspended
         \<and> defaultSubscription (snd (producer_get (broadcast_all [5, 6] p1))) = Some 4
         \<and> fst (producer_get
                 (broadcast_all [9, 10] (snd (producer_get (broadcast_all [5, 6] p1))))) =
             Returned 9)"
proof -
  have dn: "defaultSubscription example_subscribed = None"
    and nr: "next_ref example_subscribed = 3"
    by (simp_all add: example_subscribed_eq)
  have ks: "list_all keeps_default [Broadcast 7, Get, Get, Subscribe None, Broadcast (8::int)]"
    by simp
  have cls: "inst_has_put_nowait (defaultSubscriptionClass example_with_default)"
    by (simp add: example_with_default_def example_subscribed_eq get_no_default
        subscribe_None Let_def asyncio_Queue_def)
  note a = default_subscription_lifecycle [OF example_subscribed_ok]
  note b = default_subscription_lifecycle [OF example_with_default_ok, of 3
      "[Broadcast 7, Get, Get, Subscribe None, Broadcast 8]" "[5, 6]" 9 "[10]"]
  have a1: "defaultSubscription (snd (producer_get example_subscribed)) = Some 3"
    using a dn nr by simp
  have b1: "defaultSubscription (snd (producer_get example_with_default)) = Some 3"
    and b2: "next_ref (snd (producer_get example_with_default)) = 4"
    and b3: "defaultSubscription
       (producer_run [Broadcast 7, Get, Get, Subscribe None, Broadcast 8] example_with_default) =
       Some 3"
    using b example_with_default_facts(1,3) ks by simp_all
  have b4: "case unsubscribe None example_with_default of
         Inl e \<Rightarrow> False
       | Inr p1 \<Rightarrow>
           fst (producer_get (broadcast_all [5, 6] p1)) = Suspended
         \<and> defaultSubscription (snd (producer_get (broadcast_all [5, 6] p1))) = Some 4
         \<and> fst (producer_get
                 (broadcast_all [9, 10] (snd (producer_get (broadcast_all [5, 6] p1))))) =
             Returned 9"
    using b example_with_default_facts(1,2,3) cls
    by (auto split: sum.splits)
  show ?thesis
    using example_subscribed_ok example_with_default_ok dn example_with_default_facts(1,2)
      ks cls a1 b1 b2 b3 b4
    by blast
qed

section \<open>The consumer's operations\<close>

lemma cancel_idem: "cancel (cancel t) = cancel t"
  by (simp add: cancel_def task_done_def split: tstate.splits)

lemma cancel_done: "task_done t \<Longrightarrow> cancel t = t"
  by (simp add: cancel_def)

lemma cancel_pending: "\<not> task_done t \<Longrightarrow> cancel t = t\<lparr>tstate := CancelRequested\<rparr>"
  by (simp add: cancel_def)

lemma not_done_cancel: "\<not> task_done t \<Longrightarrow> \<not> task_done (cancel t)"
  by (simp add: cancel_def task_done_def)

lemma consumer_close_eq:
  "consumer_close c =
     c\<lparr>ready := False, shouldClose := True, getTask := map_option cancel (getTask c)\<rparr>"
  by (cases "getTask c") (simp_all add: consumer_close_def Let_def cancel_done)

lemma putSubscription_eq:
  "putSubscription s c =
     (if s = subscription c then c
      else c\<lparr>subscription := s, getTask := map_option cancel (getTask c)\<rparr>)"
  by (cases "getTask c") (simp_all add: putSubscription_def Let_def cancel_done)

lemma stop_eq:
  "stop c =
     c\<lparr>objs := (objs c)(next_ref c := new_object (directPutSubscriptionType c)),
       next_ref := Suc (next_ref c),
       directPutSubscription := next_ref c,
       subscription := next_ref c,
       getTask := (if subscription c = next_ref c then getTask c
                   else map_option cancel (getTask c))\<rparr>"
  by (simp add: stop_def construct_def Let_def putSubscription_eq)

text \<open>
  C10. \<^verbatim>\<open>close\<close> on a consumer sets the shutdown flag, clears readiness and cancels a
  task that is not done, and nothing else: the active subscription, the direct-feed
  queue, the store with every buffer in it, and so the value of the property
  \<^verbatim>\<open>subscription\<close> are what they were.
\<close>

theorem consumer_close_frame:
  "subscription (consumer_close c) = subscription c
   \<and> directPutSubscription (consumer_close c) = directPutSubscription c
   \<and> directPutSubscriptionType (consumer_close c) = directPutSubscriptionType c
   \<and> subscription_property (consumer_close c) = subscription_property c
   \<and> objs (consumer_close c) = objs c
   \<and> next_ref (consumer_close c) = next_ref c
   \<and> shouldClose (consumer_close c)
   \<and> \<not> ready (consumer_close c)
   \<and> getTask (consumer_close c) = map_option cancel (getTask c)"
  by (simp add: consumer_close_eq subscription_property_def)

section \<open>Direct feed\<close>

lemma put_nowait_external:
  assumes "subscription c \<noteq> directPutSubscription c"
  shows "consumer_put_nowait x c =
           (stop c)\<lparr>objs := (objs c)(next_ref c :=
              obj_put_nowait x (new_object (directPutSubscriptionType c)))\<rparr>"
  using assms by (simp add: consumer_put_nowait_def Let_def stop_eq)

lemma put_nowait_direct:
  assumes "subscription c = directPutSubscription c"
  shows "consumer_put_nowait x c =
           c\<lparr>objs := (objs c)(directPutSubscription c :=
              obj_put_nowait x (objs c (directPutSubscription c)))\<rparr>"
  using assms by (simp add: consumer_put_nowait_def Let_def)

text \<open>
  C4. With an external subscription active, \<^verbatim>\<open>put_nowait(x)\<close> makes a new direct-feed
  queue at a new reference, makes it the active subscription (so that the property
  \<^verbatim>\<open>subscription\<close> reads \<^verbatim>\<open>None\<close>), requests the cancellation of a task that is not
  done, and the new queue holds exactly \<open>x\<close>; no other object of the store changes.
  With the direct-feed queue active, \<open>x\<close> goes to the end of its buffer and nothing
  else changes.
\<close>

theorem put_nowait_detaches:
  "(subscription c \<noteq> directPutSubscription c \<longrightarrow>
      subscription_property (consumer_put_nowait x c) = None
    \<and> directPutSubscription (consumer_put_nowait x c) = next_ref c
    \<and> subscription (consumer_put_nowait x c) = next_ref c
    \<and> next_ref (consumer_put_nowait x c) = Suc (next_ref c)
    \<and> items (objs (consumer_put_nowait x c) (next_ref c)) = [x]
    \<and> (\<forall>r. r \<noteq> next_ref c \<longrightarrow> objs (consumer_put_nowait x c) r = objs c r)
    \<and> getTask (consumer_put_nowait x c) =
        (if subscription c = next_ref c then getTask c else map_option cancel (getTask c)))
   \<and> (subscription c = directPutSubscription c \<longrightarrow>
      consumer_put_nowait x c =
        c\<lparr>objs := (objs c)(directPutSubscription c :=
             obj_put_nowait x (objs c (directPutSubscription c)))\<rparr>
    \<and> items (objs (consumer_put_nowait x c) (directPutSubscription c)) =
        items (objs c (directPutSubscription c)) @ [x]
    \<and> subscription_property (consumer_put_nowait x c) = None)"
  by (simp add: put_nowait_external put_nowait_direct stop_eq subscription_property_def
      obj_put_nowait_def new_object_def)

lemma example_consumer_eq:
  "example_consumer =
     \<lparr>objs = example_store(3 := new_object asyncio_Queue), next_ref = 4,
      shouldClose = False, ready = True,
      directPutSubscriptionType = asyncio_Queue, directPutSubscription = 3,
      subscription = 3, getTask = None\<rparr>"
  by (simp add: example_consumer_def consumer_init_def)

lemma example_external_eq:
  "example_external =
     \<lparr>objs = example_store(3 := new_object asyncio_Queue), next_ref = 4,
      shouldClose = False, ready = True,
      directPutSubscriptionType = asyncio_Queue, directPutSubscription = 3,
      subscription = 0, getTask = None\<rparr>"
  by (simp add: example_external_def example_consumer_eq putSubscription_eq)

theorem put_nowait_detaches_witness:
  "subscription example_external \<noteq> directPutSubscription example_external
   \<and> subscription_property example_external = Some 0
   \<and> subscription_property (consumer_put_nowait 7 example_external) = None
   \<and> directPutSubscription (consumer_put_nowait 7 example_external) = 4
   \<and> items (objs (consumer_put_nowait 7 example_external) 4) = [7]
   \<and> objs (consumer_put_nowait 7 example_external) 0 = objs example_external 0
   \<and> subscription example_consumer = directPutSubscription example_consumer
   \<and> items (objs (consumer_put_nowait 8 (consumer_put_nowait 7 example_consumer)) 3) = [7, 8]"
proof -
  have ext: "subscription example_external \<noteq> directPutSubscription example_external"
    and prp: "subscription_property example_external = Some 0"
    and nr: "next_ref example_external = 4"
    by (simp_all add: example_external_eq subscription_property_def)
  have drc: "subscription example_consumer = directPutSubscription example_consumer"
    and d3: "directPutSubscription example_consumer = 3"
    and it0: "items (objs example_consumer 3) = []"
    by (simp_all add: example_consumer_eq new_object_def)
  note a = put_nowait_detaches [of example_external 7]
  note b = put_nowait_detaches [of example_consumer 7]
  have a1: "subscription_property (consumer_put_nowait 7 example_external) = None"
    and a2: "directPutSubscription (consumer_put_nowait 7 example_external) = 4"
    and a3: "items (objs (consumer_put_nowait 7 example_external) 4) = [7]"
    and a4: "objs (consumer_put_nowait 7 example_external) 0 = objs example_external 0"
    using a ext nr by simp_all
  have b1: "items (objs (consumer_put_nowait 7 example_consumer) 3) = [7]"
    and b2: "subscription (consumer_put_nowait 7 example_consumer) =
             directPutSubscription (consumer_put_nowait 7 example_consumer)"
    and b3: "directPutSubscription (consumer_put_nowait 7 example_consumer) = 3"
    using b drc d3 it0 by (simp_all add: obj_put_nowait_def)
  have c1: "items (objs (consumer_put_nowait 8 (consumer_put_nowait 7 example_consumer)) 3) =
      [7, 8]"
    using put_nowait_detaches [of "consumer_put_nowait 7 example_consumer" 8] b1 b2 b3
    by (simp add: obj_put_nowait_def)
  show ?thesis
    using ext prp drc a1 a2 a3 a4 c1 by blast
qed

section \<open>The shutdown flag\<close>

lemma subscribe_shouldClose: "shouldClose (snd (subscribe a p)) = shouldClose p"
  by (cases a) (simp_all add: subscribe_Some subscribe_None Let_def)

lemma unsubscribe_shouldClose: "unsubscribe a p = Inr p' \<Longrightarrow> shouldClose p' = shouldClose p"
  by (auto simp: unsubscribe_def unsubscribe_object_def set_remove_def
      split: option.splits if_splits sum.splits)

lemma get_shouldClose: "shouldClose (snd (producer_get p)) = shouldClose p"
  by (cases "defaultSubscription p")
     (simp_all add: get_no_default get_with_default subscribe_shouldClose split: list.splits)

lemma producer_exec_shouldClose:
  "shouldClose p \<Longrightarrow> shouldClose (producer_exec c p)"
  by (cases c)
     (auto simp: subscribe_shouldClose get_shouldClose put_nowait_frame unsubscribeAll_def
        producer_close_def Let_def unsubscribe_shouldClose split: sum.splits)

lemma producer_run_shouldClose:
  "shouldClose p \<Longrightarrow> shouldClose (producer_run cs p)"
  unfolding producer_run_def
  by (induction cs arbitrary: p) (simp_all add: producer_exec_shouldClose)

lemma threaded_exec_shouldClose:
  "shouldClose tp \<Longrightarrow> shouldClose (threaded_exec c tp)"
proof (cases c)
  case (Threaded_call pc)
  assume "shouldClose tp"
  with Threaded_call show ?thesis
    by (cases pc)
       (simp_all add: threaded_producer_close_def producer_close_def Let_def
          unsubscribeAll_def threaded_put_nowait_def producer_exec_shouldClose
          del: producer_exec.simps)
next
  case Loop_callback
  assume "shouldClose tp"
  with Loop_callback show ?thesis
    by (simp add: loop_callback_def put_nowait_frame split: list.splits)
qed

lemma threaded_fold_shouldClose:
  "shouldClose tp \<Longrightarrow> shouldClose (fold threaded_exec cs tp)"
  by (induction cs arbitrary: tp) (simp_all add: threaded_exec_shouldClose)

lemma process_exec_shouldClose:
  "shouldClose pp \<Longrightarrow> shouldClose (process_exec c pp)"
proof (cases c)
  case (Process_call pc)
  assume "shouldClose pp"
  with Process_call show ?thesis
    by (cases pc)
       (simp_all add: process_close_def shouldClose_setter_def ready_setter_def Let_def
          unsubscribeAll_def process_put_nowait_def producer_exec_shouldClose
          del: producer_exec.simps)
next
  case QueueReader
  assume "shouldClose pp"
  with QueueReader show ?thesis by (simp add: queueReader_def)
next
  case ProducerSetup_exit
  assume "shouldClose pp"
  with ProducerSetup_exit show ?thesis
    by (simp add: producerSetup_exit_def shouldClose_setter_def ready_setter_def)
qed

lemma process_fold_shouldClose:
  "shouldClose pp \<Longrightarrow> shouldClose (fold process_exec cs pp)"
  by (induction cs arbitrary: pp) (simp_all add: process_exec_shouldClose)

lemma consumer_exec_shouldClose:
  "shouldClose c \<Longrightarrow> shouldClose (consumer_exec f c)"
  by (cases f)
     (simp_all add: consumer_put_nowait_def Let_def stop_eq putSubscription_eq
        consumer_close_eq)

lemma get_loop_closed: "shouldClose c \<Longrightarrow> get_loop c = (Raised SubscriptionClosed, c)"
  by (simp add: get_loop_def)

lemma get_loop_shouldClose: "shouldClose (snd (get_loop c)) = shouldClose c"
  by (simp add: get_loop_def)

lemma get_resume_shouldClose: "shouldClose (snd (get_resume c)) = shouldClose c"
  by (simp add: get_resume_def get_loop_shouldClose split: option.splits tstate.splits)

lemma task_step_shouldClose: "shouldClose (task_step b c) = shouldClose c"
  by (simp add: task_step_def split: option.splits tstate.splits list.splits)

lemma step_shouldClose:
  "shouldClose (snd s) \<Longrightarrow> shouldClose (snd (step e s))"
proof (cases s)
  case (Pair st c)
  assume "shouldClose (snd s)"
  with Pair have sc: "shouldClose c" by simp
  show ?thesis
  proof (cases e)
    case (Call f)
    with Pair sc show ?thesis by (simp add: consumer_exec_shouldClose)
  next
    case Enter_get
    with Pair sc show ?thesis
      by (simp add: get_loop_closed split: option.splits awaited.splits)
  next
    case (Task_step b)
    with Pair sc show ?thesis by (simp add: task_step_shouldClose)
  next
    case Resume_get
    with Pair sc get_resume_shouldClose [of c] show ?thesis
      by (simp add: split_beta split: option.splits awaited.splits)
  next
    case (Feed r x)
    with Pair sc show ?thesis by simp
  qed
qed

lemma run_shouldClose:
  "shouldClose (snd s) \<Longrightarrow> shouldClose (snd (run evs s))"
  unfolding run_def
  by (induction evs arbitrary: s) (simp_all add: step_shouldClose)

lemma threaded_get_loop_closed:
  "shouldClose c \<Longrightarrow> threaded_get_loop c = (Raised SubscriptionClosed, c)"
  by (simp add: threaded_get_loop_def)

lemma threaded_get_loop_shouldClose: "shouldClose (snd (threaded_get_loop c)) = shouldClose c"
  by (simp add: threaded_get_loop_def)

lemma threaded_get_result_shouldClose:
  "shouldClose (snd (threaded_get_result py b c)) = shouldClose c"
  by (simp add: threaded_get_result_def threaded_get_loop_shouldClose Let_def
      split: option.splits awaited.splits)

lemma threaded_putSubscription_shouldClose:
  "shouldClose (threaded_putSubscription s c) = shouldClose c"
  by (simp add: threaded_putSubscription_def Let_def split: option.splits)

lemma threaded_stop_shouldClose: "shouldClose (threaded_stop c) = shouldClose c"
  by (simp add: threaded_stop_def construct_def Let_def threaded_putSubscription_shouldClose)

lemma threaded_consumer_exec_shouldClose:
  "shouldClose c \<Longrightarrow> shouldClose (threaded_consumer_exec f c)"
  by (cases f)
     (simp_all add: threaded_consumer_put_nowait_def Let_def threaded_stop_shouldClose
        threaded_putSubscription_shouldClose threaded_consumer_close_def
        split: option.splits)

lemma threaded_task_step_shouldClose: "shouldClose (threaded_task_step b c) = shouldClose c"
  by (simp add: threaded_task_step_def split: option.splits tstate.splits list.splits)

lemma abandoned_step_shouldClose: "shouldClose (abandoned_step r c) = shouldClose c"
  by (simp add: abandoned_step_def split: list.splits)

lemma threaded_step_shouldClose:
  "shouldClose (snd s) \<Longrightarrow> shouldClose (snd (threaded_step py e s))"
proof (cases s)
  case (Pair st c)
  assume "shouldClose (snd s)"
  with Pair have sc: "shouldClose c" by simp
  show ?thesis
  proof (cases e)
    case Timeout_elapsed
    with Pair sc threaded_get_result_shouldClose [of py True c] show ?thesis
      by (simp add: split_beta split: option.splits awaited.splits)
  next
    case (Abandoned_step r)
    with Pair sc show ?thesis by (simp add: abandoned_step_shouldClose)
  next
    case (Loop_event ev)
    show ?thesis
    proof (cases ev)
      case (Call f)
      with Loop_event Pair sc show ?thesis by (simp add: threaded_consumer_exec_shouldClose)
    next
      case Enter_get
      with Loop_event Pair sc show ?thesis
        by (simp add: threaded_get_loop_closed split: option.splits awaited.splits)
    next
      case (Task_step b)
      with Loop_event Pair sc show ?thesis by (simp add: threaded_task_step_shouldClose)
    next
      case Resume_get
      with Loop_event Pair sc threaded_get_result_shouldClose [of py False c] show ?thesis
        by (simp add: split_beta split: option.splits awaited.splits)
    next
      case (Feed r x)
      with Loop_event Pair sc show ?thesis by simp
    qed
  qed
qed

lemma threaded_run_shouldClose:
  "shouldClose (snd s) \<Longrightarrow> shouldClose (snd (threaded_run py evs s))"
  unfolding threaded_run_def
  by (induction evs arbitrary: s) (simp_all add: threaded_step_shouldClose)

text \<open>
  C9. No operation resets the shutdown flag. For the producer core, the thread-bridged
  and the process-bridged producer, the consumer core and the thread-bridged consumer:
  if \<^verbatim>\<open>_shouldClose\<close> is true it is true after any sequence of calls and events, and
  it is true after any sequence that follows a \<^verbatim>\<open>close\<close> (or, for the process-bridged
  producer, the exit of the worker process). The setter of the process-bridged producer
  can clear the flag, but every assignment the class makes passes \<^verbatim>\<open>True\<close>.
\<close>

theorem shouldClose_monotonic:
  "(shouldClose p \<longrightarrow> shouldClose (producer_run cs p))
   \<and> shouldClose (producer_run cs (producer_close p))
   \<and> (shouldClose tp \<longrightarrow> shouldClose (fold threaded_exec tcs tp))
   \<and> shouldClose (fold threaded_exec tcs (threaded_producer_close tp))
   \<and> (shouldClose pp \<longrightarrow> shouldClose (fold process_exec pcs pp))
   \<and> shouldClose (fold process_exec pcs (process_close pp))
   \<and> shouldClose (fold process_exec pcs (producerSetup_exit pp))
   \<and> (shouldClose c \<longrightarrow> shouldClose (snd (run evs (st, c))))
   \<and> shouldClose (snd (run evs (st, consumer_close c)))
   \<and> (shouldClose tc \<longrightarrow> shouldClose (snd (threaded_run py tevs (st, tc))))
   \<and> shouldClose (snd (threaded_run py tevs (st, threaded_consumer_close tc)))"
proof (intro conjI impI)
  show "shouldClose (producer_run cs (producer_close p))"
    by (rule producer_run_shouldClose) (simp add: producer_close_def Let_def unsubscribeAll_def)
  show "shouldClose (fold threaded_exec tcs (threaded_producer_close tp))"
    by (rule threaded_fold_shouldClose)
       (simp add: threaded_producer_close_def producer_close_def Let_def unsubscribeAll_def)
  show "shouldClose (fold process_exec pcs (process_close pp))"
    by (rule process_fold_shouldClose)
       (simp add: process_close_def shouldClose_setter_def ready_setter_def Let_def
          unsubscribeAll_def)
  show "shouldClose (fold process_exec pcs (producerSetup_exit pp))"
    by (rule process_fold_shouldClose)
       (simp add: producerSetup_exit_def shouldClose_setter_def ready_setter_def)
  show "shouldClose (snd (run evs (st, consumer_close c)))"
    by (rule run_shouldClose) (simp add: consumer_close_eq)
  show "shouldClose (snd (threaded_run py tevs (st, threaded_consumer_close tc)))"
    by (rule threaded_run_shouldClose)
       (simp add: threaded_consumer_close_def Let_def split: option.splits)
next
  assume "shouldClose p"
  then show "shouldClose (producer_run cs p)" by (rule producer_run_shouldClose)
next
  assume "shouldClose tp"
  then show "shouldClose (fold threaded_exec tcs tp)" by (rule threaded_fold_shouldClose)
next
  assume "shouldClose pp"
  then show "shouldClose (fold process_exec pcs pp)" by (rule process_fold_shouldClose)
next
  assume "shouldClose c"
  then show "shouldClose (snd (run evs (st, c)))" by (simp add: run_shouldClose)
next
  assume "shouldClose tc"
  then show "shouldClose (snd (threaded_run py tevs (st, tc)))"
    by (simp add: threaded_run_shouldClose)
qed

theorem shouldClose_monotonic_witness:
  "shouldClose (producer_close example_producer)
   \<and> shouldClose (producer_run [Subscribe None, Get, Broadcast 1, Unsubscribe None,
        Unsubscribe (Some 2), UnsubscribeAll, Close, Subscribe (Some 0)]
        (producer_close example_producer))
   \<and> shouldClose (threaded_producer_close example_threaded)
   \<and> shouldClose (fold threaded_exec [Threaded_call (Broadcast 1), Loop_callback,
        Threaded_call Get, Threaded_call Close] (threaded_producer_close example_threaded))
   \<and> shouldClose (producerSetup_exit example_process)
   \<and> shouldClose (fold process_exec [Process_call (Broadcast 1), QueueReader,
        Process_call (Subscribe None), Process_call Close, ProducerSetup_exit]
        (producerSetup_exit example_process))
   \<and> shouldClose (consumer_close example_consumer)
   \<and> shouldClose (snd (run [Enter_get, Call (Put_nowait 1), Call (PutSubscription 0),
        Task_step None, Resume_get, Call Stop, Feed 0 2, Call Close_consumer]
        (None, consumer_close example_consumer)))
   \<and> shouldClose (threaded_consumer_close example_threaded_consumer)
   \<and> shouldClose (snd (threaded_run CPython_38_to_310 [Loop_event Enter_get, Timeout_elapsed,
        Loop_event (Call (PutSubscription 0)), Loop_event Resume_get, Abandoned_step 3]
        (None, threaded_consumer_close example_threaded_consumer)))"
proof -
  have a: "shouldClose (producer_close example_producer)"
    by (simp add: producer_close_def Let_def unsubscribeAll_def)
  have b: "shouldClose (threaded_producer_close example_threaded)"
    by (simp add: threaded_producer_close_def producer_close_def Let_def unsubscribeAll_def)
  have c: "shouldClose (producerSetup_exit example_process)"
    by (simp add: producerSetup_exit_def shouldClose_setter_def ready_setter_def)
  have d: "shouldClose (consumer_close example_consumer)"
    by (simp add: consumer_close_eq)
  have e: "shouldClose (threaded_consumer_close example_threaded_consumer)"
    by (simp add: threaded_consumer_close_def example_threaded_consumer_def Let_def)
  note th = shouldClose_monotonic [where p = "producer_close example_producer"
      and tp = "threaded_producer_close example_threaded"
      and pp = "producerSetup_exit example_process"
      and c = "consumer_close example_consumer" and st = None
      and tc = "threaded_consumer_close example_threaded_consumer"]
  from th a b c d e show ?thesis by blast
qed

section \<open>Waiting after close\<close>

lemma consumer_close_idem: "consumer_close (consumer_close c) = consumer_close c"
  by (simp add: consumer_close_eq option.map_comp comp_def cancel_idem)

lemma consumer_close_funpow: "(consumer_close ^^ Suc n) c = consumer_close c"
  by (induction n) (simp_all add: consumer_close_idem)

text \<open>
  C3. After \<^verbatim>\<open>close\<close>, \<^verbatim>\<open>_get\<close> raises \<^verbatim>\<open>SubscriptionClosed\<close> at the test of its loop:
  it creates no task, does not wait and changes nothing. The same holds in every state
  reached from there by any events, so for every later call. A second \<^verbatim>\<open>close\<close>, and
  any number of them, gives the state the first one gave.
\<close>

theorem get_after_close:
  "get_loop (consumer_close c) = (Raised SubscriptionClosed, consumer_close c)
   \<and> step Enter_get (None, consumer_close c) =
       (Some (Raised SubscriptionClosed), consumer_close c)
   \<and> step Enter_get (step Enter_get (None, consumer_close c)) =
       (Some (Raised SubscriptionClosed), consumer_close c)
   \<and> get_loop (snd (run evs (st, consumer_close c))) =
       (Raised SubscriptionClosed, snd (run evs (st, consumer_close c)))
   \<and> consumer_close (consumer_close c) = consumer_close c
   \<and> (consumer_close ^^ Suc n) c = consumer_close c
   \<and> get_loop ((consumer_close ^^ Suc n) c) = (Raised SubscriptionClosed, consumer_close c)"
proof -
  have closed: "shouldClose (consumer_close c)"
    by (simp add: consumer_close_eq)
  have first: "get_loop (consumer_close c) = (Raised SubscriptionClosed, consumer_close c)"
    using closed by (rule get_loop_closed)
  have later: "get_loop (snd (run evs (st, consumer_close c))) =
       (Raised SubscriptionClosed, snd (run evs (st, consumer_close c)))"
    by (rule get_loop_closed) (simp add: run_shouldClose closed)
  show ?thesis
    using first later
    by (simp add: consumer_close_idem consumer_close_funpow del: funpow.simps)
qed

section \<open>Timeouts of the thread-bridged wait\<close>









lemma example_threaded_waiting_eq:
  "example_threaded_waiting = example_threaded_consumer\<lparr>getTask := Some (create_task 3)\<rparr>"
  by (simp add: example_threaded_waiting_def example_threaded_consumer_def threaded_get_loop_def)




text \<open>
  What the handle adds to the picture. A swap or a \<^verbatim>\<open>close\<close> cancels the handle, which
  is done at once; \<^verbatim>\<open>result\<close> then raises \<^verbatim>\<open>concurrent.futures.CancelledError\<close>,
  which from CPython 3.8 on is not an \<^verbatim>\<open>asyncio.CancelledError\<close> and leaves
  \<^verbatim>\<open>_get\<close>. And after a timeout the next item of the subscription goes to the
  abandoned wait, not to the new handle.
\<close>

lemma cancelled_handle_leaves_get:
  assumes "\<not> cancelled_same py" and "getTask c = Some t" and "\<not> task_done t"
    and "s \<noteq> subscription c"
  shows "threaded_run py [Loop_event (Call (PutSubscription s)), Loop_event Resume_get]
           (Some Suspended, c) =
         (Some (Raised FuturesCancelledError),
          c\<lparr>subscription := s, getTask := Some (t\<lparr>tstate := Cancelled\<rparr>)\<rparr>)"
  using assms
  by (simp add: threaded_run_def threaded_putSubscription_def threaded_get_result_def
      future_cancel_def future_result_def task_done_def is_asyncio_CancelledError_def
      is_asyncio_TimeoutError_def Let_def)

lemma abandoned_wait_takes_item:
  "threaded_run CPython_from_311
     [Timeout_elapsed, Loop_event (Feed 3 5), Loop_event (Task_step None),
      Loop_event Resume_get]
     (Some Suspended, example_threaded_waiting) =
   (Some Suspended, example_threaded_waiting)"
  by (simp add: threaded_run_def threaded_get_result_def threaded_get_loop_def
      future_result_def threaded_task_step_def is_asyncio_CancelledError_def
      is_asyncio_TimeoutError_def timeout_same_def cancelled_same_def Let_def
      example_threaded_waiting_eq example_threaded_consumer_def create_task_def task_done_def
      obj_put_nowait_def example_store_def new_object_def asyncio_Queue_def)

section \<open>Replacing the subscription during a wait\<close>

lemma example_waiting_eq:
  "example_waiting = example_consumer\<lparr>getTask := Some (create_task 3)\<rparr>"
  by (simp add: example_waiting_def example_consumer_eq get_loop_def)

lemma cancel_fields:
  "awaits (cancel t) = awaits t"
  "tstate (cancel t) = (if tstate t = Pending then CancelRequested else tstate t)"
  by (simp_all add: cancel_def task_done_def split: tstate.splits)

lemma fed_to_Cons: "fed_to r (e # evs) = fed_to r [e] @ fed_to r evs"
  by (cases e) simp_all

lemma detached_call:
  assumes "detached old its (st, c)" and "f \<noteq> PutSubscription old"
  shows "detached old its (st, consumer_exec f c)"
proof (cases f)
  case (Put_nowait x)
  with assms(1) show ?thesis
    by (auto simp: detached_def consumer_put_nowait_def Let_def stop_eq cancel_fields
        obj_put_nowait_def split: option.splits awaited.splits)
next
  case (PutSubscription r)
  with assms show ?thesis
    by (auto simp: detached_def putSubscription_eq cancel_fields
        split: option.splits awaited.splits)
next
  case Stop
  with assms(1) show ?thesis
    by (auto simp: detached_def stop_eq cancel_fields split: option.splits awaited.splits)
next
  case Close_consumer
  with assms(1) show ?thesis
    by (auto simp: detached_def consumer_close_eq cancel_fields
        split: option.splits awaited.splits)
qed

lemma detached_get_loop:
  assumes "detached old its (st, c)" and "st \<noteq> Some Suspended"
  shows "detached old its (Some (fst (get_loop c)), snd (get_loop c))"
  using assms
  by (auto simp: detached_def get_loop_def create_task_def split: option.splits awaited.splits)

lemma detached_task_step:
  assumes "detached old its (st, c)"
  shows "detached old its (st, task_step b c)"
  using assms
  by (auto simp: detached_def task_step_def
      split: option.splits awaited.splits tstate.splits list.splits)

lemma detached_get_resume:
  assumes "detached old its (Some Suspended, c)"
  shows "detached old its (Some (fst (get_resume c)), snd (get_resume c))"
  using assms
  by (auto simp: detached_def get_resume_def get_loop_def create_task_def
      split: option.splits awaited.splits tstate.splits)

lemma detached_feed:
  assumes "detached old its (st, c)"
  shows "detached old (its @ fed_to old [Feed r x])
           (st, c\<lparr>objs := (objs c)(r := obj_put_nowait x (objs c r))\<rparr>)"
  using assms
  by (auto simp: detached_def obj_put_nowait_def split: option.splits awaited.splits)

lemma detached_step:
  assumes "detached old its s" and "e \<noteq> Call (PutSubscription old)"
  shows "detached old (its @ fed_to old [e]) (step e s)"
proof (cases s)
  case (Pair st c)
  with assms(1) have d: "detached old its (st, c)" by simp
  show ?thesis
  proof (cases e)
    case (Call f)
    with assms(2) have "f \<noteq> PutSubscription old" by simp
    with d Call Pair show ?thesis by (simp add: detached_call)
  next
    case Enter_get
    show ?thesis
    proof (cases "st = Some Suspended")
      case True
      with d Enter_get Pair show ?thesis by simp
    next
      case False
      then have "step Enter_get (st, c) = (Some (fst (get_loop c)), snd (get_loop c))"
        by (simp add: split_beta split: option.splits awaited.splits)
      with d False Enter_get Pair show ?thesis by (simp add: detached_get_loop)
    qed
  next
    case (Task_step b)
    with d Pair show ?thesis by (simp add: detached_task_step)
  next
    case Resume_get
    show ?thesis
    proof (cases "st = Some Suspended")
      case True
      then have "step Resume_get (st, c) = (Some (fst (get_resume c)), snd (get_resume c))"
        by (simp add: split_beta)
      with d True Resume_get Pair show ?thesis by (simp add: detached_get_resume)
    next
      case False
      then have "step Resume_get (st, c) = (st, c)"
        by (simp split: option.splits awaited.splits)
      with d Resume_get Pair show ?thesis by simp
    qed
  next
    case (Feed r x)
    with d Pair show ?thesis using detached_feed [OF d, of r x] by simp
  qed
qed

lemma detached_run:
  assumes "detached old its s" and "Call (PutSubscription old) \<notin> set evs"
  shows "detached old (its @ fed_to old evs) (run evs s)"
  using assms
proof (induction evs arbitrary: its s)
  case Nil
  then show ?case by (simp add: run_def)
next
  case (Cons e evs)
  from Cons.prems have "e \<noteq> Call (PutSubscription old)" by auto
  with Cons.prems(1) have "detached old (its @ fed_to old [e]) (step e s)"
    by (rule detached_step)
  moreover from Cons.prems have "Call (PutSubscription old) \<notin> set evs" by simp
  ultimately have "detached old ((its @ fed_to old [e]) @ fed_to old evs) (run evs (step e s))"
    by (rule Cons.IH)
  then show ?case
    using fed_to_Cons [of old e evs] by (simp add: run_def)
qed

lemma detached_after_swap:
  assumes "getTask c = Some t" and "\<not> task_done t" and "s \<noteq> subscription c"
    and "subscription c < next_ref c"
  shows "detached (subscription c) (items (objs c (subscription c)))
           (step (Call (PutSubscription s)) (Some Suspended, c))"
  using assms
  by (auto simp: detached_def putSubscription_eq cancel_fields task_done_def
      split: tstate.splits)


lemma swap_then_resume:
  assumes "getTask c = Some t" and "\<not> task_done t" and "s \<noteq> subscription c"
  shows "run [Call (PutSubscription s), Task_step b, Resume_get] (Some Suspended, c) =
          (if shouldClose c
           then (Some (Raised SubscriptionClosed),
                 c\<lparr>subscription := s, getTask := Some (t\<lparr>tstate := Cancelled\<rparr>)\<rparr>)
           else (Some Suspended, c\<lparr>subscription := s, getTask := Some (create_task s)\<rparr>))"
  using assms
  by (simp add: run_def putSubscription_eq cancel_pending task_step_def get_resume_def
      get_loop_def)

text \<open>
  C2, as amended: the wait in flight is one whose task is not done, which is the test
  \<^verbatim>\<open>putSubscription\<close> itself makes before it cancels.
  \<^verbatim>\<open>putSubscription\<close> with the active subscription changes nothing. With another
  subscription \<open>s\<close>, while the task of \<^verbatim>\<open>_get\<close> is not done, it makes \<open>s\<close> active and
  requests the cancellation of the task; at its next step the task is cancelled,
  whatever its subscription had to give, and \<^verbatim>\<open>_get\<close>, resumed, is suspended again
  on a new task that awaits \<open>s\<close> (or raises \<^verbatim>\<open>SubscriptionClosed\<close> when the consumer
  had been closed). In every run of events after such a swap that does not install the
  old subscription again: the old subscription is never active, nothing is taken from
  its buffer (it holds what it held, followed by what was fed to it), a value that
  \<^verbatim>\<open>_get\<close> returns is the result of a task that does not await the old subscription,
  and \<^verbatim>\<open>_get\<close> raises nothing except \<^verbatim>\<open>SubscriptionClosed\<close> after a \<^verbatim>\<open>close\<close>.
\<close>

theorem swap_during_wait:
  "putSubscription (subscription c) c = c
   \<and> (getTask c = Some t \<and> \<not> task_done t \<and> s \<noteq> subscription c \<longrightarrow>
        putSubscription s c =
          c\<lparr>subscription := s, getTask := Some (t\<lparr>tstate := CancelRequested\<rparr>)\<rparr>
      \<and> run [Call (PutSubscription s), Task_step b, Resume_get] (Some Suspended, c) =
          (if shouldClose c
           then (Some (Raised SubscriptionClosed),
                 c\<lparr>subscription := s, getTask := Some (t\<lparr>tstate := Cancelled\<rparr>)\<rparr>)
           else (Some Suspended, c\<lparr>subscription := s, getTask := Some (create_task s)\<rparr>)))
   \<and> (getTask c = Some t \<and> \<not> task_done t \<and> s \<noteq> subscription c
        \<and> subscription c < next_ref c \<and> Call (PutSubscription (subscription c)) \<notin> set evs \<longrightarrow>
        (case run evs (step (Call (PutSubscription s)) (Some Suspended, c)) of
           (st', c') \<Rightarrow>
             subscription c' \<noteq> subscription c
           \<and> items (objs c' (subscription c)) =
               items (objs c (subscription c)) @ fed_to (subscription c) evs
           \<and> (\<forall>v. st' = Some (Returned v) \<longrightarrow>
                 (\<exists>t'. getTask c' = Some t' \<and> tstate t' = Done v
                       \<and> awaits t' \<noteq> subscription c))
           \<and> (\<forall>e. st' = Some (Raised e) \<longrightarrow> e = SubscriptionClosed \<and> shouldClose c')))"
proof (intro conjI impI)
  show "putSubscription (subscription c) c = c"
    by (simp add: putSubscription_def)
next
  assume h: "getTask c = Some t \<and> \<not> task_done t \<and> s \<noteq> subscription c"
  then show "putSubscription s c =
          c\<lparr>subscription := s, getTask := Some (t\<lparr>tstate := CancelRequested\<rparr>)\<rparr>"
    by (simp add: putSubscription_eq cancel_pending)
  from h show "run [Call (PutSubscription s), Task_step b, Resume_get] (Some Suspended, c) =
          (if shouldClose c
           then (Some (Raised SubscriptionClosed),
                 c\<lparr>subscription := s, getTask := Some (t\<lparr>tstate := Cancelled\<rparr>)\<rparr>)
           else (Some Suspended, c\<lparr>subscription := s, getTask := Some (create_task s)\<rparr>))"
    by (simp add: swap_then_resume)
next
  assume h: "getTask c = Some t \<and> \<not> task_done t \<and> s \<noteq> subscription c
        \<and> subscription c < next_ref c \<and> Call (PutSubscription (subscription c)) \<notin> set evs"
  let ?old = "subscription c"
  obtain st' c' where r: "run evs (step (Call (PutSubscription s)) (Some Suspended, c)) = (st', c')"
    by (cases "run evs (step (Call (PutSubscription s)) (Some Suspended, c))")
  have "detached ?old (items (objs c ?old))
           (step (Call (PutSubscription s)) (Some Suspended, c))"
    using detached_after_swap [of c t s] h by blast
  moreover from h have "Call (PutSubscription ?old) \<notin> set evs" by simp
  ultimately have "detached ?old (items (objs c ?old) @ fed_to ?old evs)
      (run evs (step (Call (PutSubscription s)) (Some Suspended, c)))"
    by (rule detached_run)
  then have d: "detached ?old (items (objs c ?old) @ fed_to ?old evs) (st', c')"
    by (simp only: r)
  have concl: "subscription c' \<noteq> ?old
      \<and> items (objs c' ?old) = items (objs c ?old) @ fed_to ?old evs
      \<and> (\<forall>v. st' = Some (Returned v) \<longrightarrow>
            (\<exists>t'. getTask c' = Some t' \<and> tstate t' = Done v \<and> awaits t' \<noteq> ?old))
      \<and> (\<forall>e. st' = Some (Raised e) \<longrightarrow> e = SubscriptionClosed \<and> shouldClose c')"
    using d by (auto simp: detached_def split: option.splits awaited.splits)
  show "case run evs (step (Call (PutSubscription s)) (Some Suspended, c)) of
           (st', c') \<Rightarrow>
             subscription c' \<noteq> subscription c
           \<and> items (objs c' (subscription c)) =
               items (objs c (subscription c)) @ fed_to (subscription c) evs
           \<and> (\<forall>v. st' = Some (Returned v) \<longrightarrow>
                 (\<exists>t'. getTask c' = Some t' \<and> tstate t' = Done v
                       \<and> awaits t' \<noteq> subscription c))
           \<and> (\<forall>e. st' = Some (Raised e) \<longrightarrow> e = SubscriptionClosed \<and> shouldClose c')"
    unfolding r prod.case by (rule concl)
qed

theorem swap_during_wait_witness:
  "getTask example_waiting = Some (create_task 3) \<and> \<not> task_done (create_task 3 :: int task)
   \<and> 0 \<noteq> subscription example_waiting \<and> subscription example_waiting = 3
   \<and> subscription example_waiting < next_ref example_waiting
   \<and> Call (PutSubscription 3) \<notin>
       set [Feed 3 5, Task_step None, Resume_get, Feed 0 (9::int), Task_step None, Resume_get]
   \<and> putSubscription 3 example_waiting = example_waiting
   \<and> run [Call (PutSubscription 0), Task_step None, Resume_get] (Some Suspended, example_waiting) =
       (Some Suspended, example_waiting\<lparr>subscription := 0, getTask := Some (create_task 0)\<rparr>)
   \<and> fst (run [Feed 3 5, Task_step None, Resume_get, Feed 0 9, Task_step None, Resume_get]
            (step (Call (PutSubscription 0)) (Some Suspended, example_waiting))) =
       Some (Returned 9)
   \<and> items (objs (snd (run [Feed 3 5, Task_step None, Resume_get, Feed 0 9, Task_step None,
                             Resume_get]
            (step (Call (PutSubscription 0)) (Some Suspended, example_waiting)))) 3) = [5]
   \<and> (\<exists>t'. getTask (snd (run [Feed 3 5, Task_step None, Resume_get, Feed 0 9, Task_step None,
                             Resume_get]
            (step (Call (PutSubscription 0)) (Some Suspended, example_waiting)))) = Some t'
          \<and> tstate t' = Done 9 \<and> awaits t' \<noteq> 3)"
proof -
  let ?evs = "[Feed 3 5, Task_step None, Resume_get, Feed 0 (9::int), Task_step None, Resume_get]"
  let ?r = "run ?evs (step (Call (PutSubscription 0)) (Some Suspended, example_waiting))"
  have t: "getTask example_waiting = Some (create_task 3)"
    and nd: "\<not> task_done (create_task 3 :: int task)"
    and ne: "0 \<noteq> subscription example_waiting"
    and sub: "subscription example_waiting = 3"
    and lt: "subscription example_waiting < next_ref example_waiting"
    and sc: "\<not> shouldClose example_waiting"
    and it: "items (objs example_waiting 3) = []"
    by (simp_all add: example_waiting_eq example_consumer_eq create_task_def task_done_def
        new_object_def)
  have ev: "Call (PutSubscription 3) \<notin> set ?evs"
    by simp
  have ev': "Call (PutSubscription (subscription example_waiting)) \<notin> set ?evs"
    by (simp add: sub)
  have fed: "fed_to 3 ?evs = [5]"
    by simp
  have st: "fst ?r = Some (Returned 9)"
    by (simp add: run_def putSubscription_eq cancel_def task_done_def task_step_def
        get_resume_def get_loop_def create_task_def obj_put_nowait_def example_waiting_eq
        example_consumer_eq example_store_def new_object_def asyncio_Queue_def)
  note th = swap_during_wait [of example_waiting "create_task 3" 0 None ?evs]
  have a: "putSubscription 3 example_waiting = example_waiting"
    using th sub by simp
  have b: "run [Call (PutSubscription 0), Task_step None, Resume_get]
             (Some Suspended, example_waiting) =
       (Some Suspended, example_waiting\<lparr>subscription := 0, getTask := Some (create_task 0)\<rparr>)"
    using th t nd ne sc by simp
  have c: "case ?r of
           (st', c') \<Rightarrow>
             subscription c' \<noteq> subscription example_waiting
           \<and> items (objs c' (subscription example_waiting)) =
               items (objs example_waiting (subscription example_waiting)) @
               fed_to (subscription example_waiting) ?evs
           \<and> (\<forall>v. st' = Some (Returned v) \<longrightarrow>
                 (\<exists>t'. getTask c' = Some t' \<and> tstate t' = Done v
                       \<and> awaits t' \<noteq> subscription example_waiting))
           \<and> (\<forall>e. st' = Some (Raised e) \<longrightarrow> e = SubscriptionClosed \<and> shouldClose c')"
    by (rule th [THEN conjunct2, THEN conjunct2, THEN mp]) (intro conjI t nd ne lt ev')
  have c1: "items (objs (snd ?r) 3) = [5]"
    using c sub it fed by (cases ?r) simp
  have c2: "\<exists>t'. getTask (snd ?r) = Some t' \<and> tstate t' = Done 9 \<and> awaits t' \<noteq> 3"
    using c sub st by (cases ?r) simp
  show ?thesis
    using t nd ne sub lt ev a b st c1 c2 by blast
qed


text \<open>
  For every state in which the caller is still waiting the claim fails.
  \<^verbatim>\<open>putSubscription\<close> leaves a task that is done alone, so when the task has its
  result and \<^verbatim>\<open>_get\<close> has not been resumed yet, a swap does not keep \<^verbatim>\<open>_get\<close>
  from returning that result. In the example the subscription 3 is active and waited
  on, the item 5 comes to it and the task takes it; then the subscription 0 is
  installed, and \<^verbatim>\<open>_get\<close>, resumed, returns 5.
\<close>

lemma swap_after_task_done:
  assumes "getTask c = Some t" and "tstate t = Done v"
  shows "run [Call (PutSubscription s), Resume_get] (Some Suspended, c) =
           (Some (Returned v), putSubscription s c)"
  using assms
  by (simp add: run_def putSubscription_eq cancel_def task_done_def get_resume_def)

lemma example_taken_eq:
  "run [Feed 3 5, Task_step None] (Some Suspended, example_waiting) =
     (Some Suspended,
      example_consumer\<lparr>getTask := Some \<lparr>awaits = 3, tstate = Done 5\<rparr>\<rparr>)"
  by (simp add: run_def task_step_def create_task_def obj_put_nowait_def example_waiting_eq
      example_consumer_eq new_object_def)

theorem swap_during_wait_counterexample:
  "fst (run [Feed 3 5, Task_step None] (Some Suspended, example_waiting)) = Some Suspended
   \<and> subscription example_waiting = 3
   \<and> subscription example_taken = 3
   \<and> getTask example_taken = Some \<lparr>awaits = 3, tstate = Done 5\<rparr>
   \<and> subscription (putSubscription 0 example_taken) = 0
   \<and> run [Call (PutSubscription 0), Resume_get] (Some Suspended, example_taken) =
       (Some (Returned 5), putSubscription 0 example_taken)"
proof -
  have t: "getTask example_taken = Some \<lparr>awaits = 3, tstate = Done 5\<rparr>"
    and s: "subscription example_taken = 3"
    by (simp_all add: example_taken_def example_taken_eq example_consumer_eq)
  have r: "run [Call (PutSubscription 0), Resume_get] (Some Suspended, example_taken) =
       (Some (Returned 5), putSubscription 0 example_taken)"
    using t by (rule swap_after_task_done) simp
  have w: "fst (run [Feed 3 5, Task_step None] (Some Suspended, example_waiting)) =
      Some Suspended"
    by (simp add: example_taken_eq)
  have w3: "subscription example_waiting = 3"
    by (simp add: example_waiting_eq example_consumer_eq)
  have n: "subscription (putSubscription 0 example_taken) = 0"
    using s by (simp add: putSubscription_eq)
  show ?thesis
    using w w3 s t n r by blast
qed

end
